theory Spec2Isabelle
  imports Main "HOL-Library.Multiset"
begin

section \<open>Python strings\<close>

text \<open>
  A Python \<open>str\<close> is modelled as a \<open>string\<close> whose characters are the code points
  0..255 (the Latin-1 part of Unicode); the functions below follow CPython on that
  range. \<open>None\<close> is \<open>None\<close> of an option type, and an exception that leaves a function
  is the \<open>Inl\<close> of a sum.
\<close>

datatype exn = AttributeError | TypeError | IndexError | ReError

definition is_space :: "char \<Rightarrow> bool" where
  \<comment> \<open>\<open>str.isspace\<close>, and the class \<open>\s\<close> of \<open>re\<close> on a \<open>str\<close> pattern\<close>
  "is_space c = (c \<in> set [CHR 0x09, CHR 0x0A, CHR 0x0B, CHR 0x0C, CHR 0x0D, CHR 0x1C,
                            CHR 0x1D, CHR 0x1E, CHR 0x1F, CHR 0x20, CHR 0x85, CHR 0xA0])"

definition is_digit :: "char \<Rightarrow> bool" where
  \<comment> \<open>the class \<open>\d\<close>\<close>
  "is_digit c = (c \<in> set ''0123456789'')"

definition is_alpha :: "char \<Rightarrow> bool" where
  \<comment> \<open>the class \<open>[a-zA-Z]\<close>\<close>
  "is_alpha c = (c \<in> set ''abcdefghijklmnopqrstuvwxyzABCDEFGHIJKLMNOPQRSTUVWXYZ'')"

definition upper_chars :: string where
  "upper_chars = ''ABCDEFGHIJKLMNOPQRSTUVWXYZ'' @
     [CHR 0xC0, CHR 0xC1, CHR 0xC2, CHR 0xC3, CHR 0xC4, CHR 0xC5, CHR 0xC6, CHR 0xC7,
      CHR 0xC8, CHR 0xC9, CHR 0xCA, CHR 0xCB, CHR 0xCC, CHR 0xCD, CHR 0xCE, CHR 0xCF,
      CHR 0xD0, CHR 0xD1, CHR 0xD2, CHR 0xD3, CHR 0xD4, CHR 0xD5, CHR 0xD6,
      CHR 0xD8, CHR 0xD9, CHR 0xDA, CHR 0xDB, CHR 0xDC, CHR 0xDD, CHR 0xDE]"

definition lower_chars :: string where
  "lower_chars = ''abcdefghijklmnopqrstuvwxyz'' @
     [CHR 0xE0, CHR 0xE1, CHR 0xE2, CHR 0xE3, CHR 0xE4, CHR 0xE5, CHR 0xE6, CHR 0xE7,
      CHR 0xE8, CHR 0xE9, CHR 0xEA, CHR 0xEB, CHR 0xEC, CHR 0xED, CHR 0xEE, CHR 0xEF,
      CHR 0xF0, CHR 0xF1, CHR 0xF2, CHR 0xF3, CHR 0xF4, CHR 0xF5, CHR 0xF6,
      CHR 0xF8, CHR 0xF9, CHR 0xFA, CHR 0xFB, CHR 0xFC, CHR 0xFD, CHR 0xFE]"

definition lower_char :: "char \<Rightarrow> char" where
  "lower_char c = (case map_of (zip upper_chars lower_chars) c of Some l \<Rightarrow> l | None \<Rightarrow> c)"

definition py_lower :: "string \<Rightarrow> string" where
  \<comment> \<open>\<open>s.lower()\<close>\<close>
  "py_lower s = map lower_char s"

definition py_strip :: "string \<Rightarrow> string" where
  \<comment> \<open>\<open>s.strip()\<close>\<close>
  "py_strip s = rev (dropWhile is_space (rev (dropWhile is_space s)))"

definition startswith :: "string \<Rightarrow> string \<Rightarrow> bool" where
  \<comment> \<open>\<open>s.startswith(p)\<close>\<close>
  "startswith s p = (take (length p) s = p)"

fun contains :: "string \<Rightarrow> string \<Rightarrow> bool" where
  \<comment> \<open>\<open>p in s\<close>\<close>
  "contains p [] = (p = [])"
| "contains p (c # cs) = (startswith (c # cs) p \<or> contains p cs)"

fun before_sep :: "string \<Rightarrow> string \<Rightarrow> string" where
  \<comment> \<open>the part of \<open>s\<close> before the first occurrence of \<open>sep\<close> (all of \<open>s\<close> when there is none)\<close>
  "before_sep sep [] = []"
| "before_sep sep (c # cs) = (if startswith (c # cs) sep then [] else c # before_sep sep cs)"

fun after_sep :: "string \<Rightarrow> string \<Rightarrow> string option" where
  \<comment> \<open>the part of \<open>s\<close> after the first occurrence of \<open>sep\<close>\<close>
  "after_sep sep [] = None"
| "after_sep sep (c # cs) =
     (if startswith (c # cs) sep then Some (drop (length sep) (c # cs)) else after_sep sep cs)"

lemma after_sep_shorter: "sep \<noteq> [] \<Longrightarrow> after_sep sep s = Some r \<Longrightarrow> length r < length s"
proof (induction s)
  case Nil
  then show ?case by simp
next
  case (Cons c cs)
  show ?case
  proof (cases "startswith (c # cs) sep")
    case True
    with Cons.prems have "r = drop (length sep) (c # cs)" by simp
    with Cons.prems(1) show ?thesis by (cases sep) auto
  next
    case False
    with Cons show ?thesis by fastforce
  qed
qed

function py_split :: "string \<Rightarrow> string \<Rightarrow> string list" where
  \<comment> \<open>\<open>s.split(sep)\<close> for a separator that is not empty: the pieces between the
      occurrences of \<open>sep\<close>, found from the left and not overlapping\<close>
  "py_split sep s =
     (if sep = [] then [s]
      else case after_sep sep s of
             None \<Rightarrow> [s]
           | Some r \<Rightarrow> before_sep sep s # py_split sep r)"
  by pat_completeness auto
termination
  by (relation "measure (\<lambda>(sep, s). length s)") (auto simp: after_sep_shorter)

declare py_split.simps [simp del]

definition item :: "'a list \<Rightarrow> nat \<Rightarrow> exn + 'a" where
  \<comment> \<open>\<open>xs[i]\<close> for an index that is not negative\<close>
  "item xs i = (if i < length xs then Inr (xs ! i) else Inl IndexError)"

fun py_join :: "string \<Rightarrow> string list \<Rightarrow> string" where
  \<comment> \<open>\<open>sep.join(xs)\<close>\<close>
  "py_join sep [] = []"
| "py_join sep [x] = x"
| "py_join sep (x # y # ys) = x @ sep @ py_join sep (y # ys)"

definition py_replace :: "string \<Rightarrow> string \<Rightarrow> string \<Rightarrow> string" where
  \<comment> \<open>\<open>s.replace(old, new)\<close> for \<open>old\<close> not empty\<close>
  "py_replace s old new = py_join new (py_split old s)"

definition truthy :: "string option \<Rightarrow> bool" where
  \<comment> \<open>the truth value of a value that is \<open>None\<close> or a \<open>str\<close>\<close>
  "truthy v = (case v of None \<Rightarrow> False | Some s \<Rightarrow> s \<noteq> [])"

subsection \<open>int(s)\<close>

definition is_int_space :: "char \<Rightarrow> bool" where
  \<comment> \<open>what \<open>int\<close> skips around the number: not the separators 0x1C..0x1F\<close>
  "is_int_space c = (c \<in> set [CHR 0x09, CHR 0x0A, CHR 0x0B, CHR 0x0C, CHR 0x0D, CHR 0x20,
                                CHR 0x85, CHR 0xA0])"

definition digit_val :: "char \<Rightarrow> nat" where
  "digit_val c = (case map_of (zip ''0123456789'' [0, 1, 2, 3, 4, 5, 6, 7, 8, 9]) c of
                    Some d \<Rightarrow> d | None \<Rightarrow> 0)"

definition digits_val :: "string \<Rightarrow> nat" where
  "digits_val ds = foldl (\<lambda>a c. 10 * a + digit_val c) 0 ds"

fun int_body :: "string \<Rightarrow> bool" where
  \<comment> \<open>digits, with single underscores between them\<close>
  "int_body [] = False"
| "int_body [c] = is_digit c"
| "int_body (c # d # r) =
     (is_digit c \<and> (if d = CHR ''_'' then int_body r else int_body (d # r)))"

definition py_int :: "string \<Rightarrow> int option" where
  \<comment> \<open>\<open>int(s)\<close>; \<open>None\<close> is ValueError\<close>
  "py_int s =
     (let t = rev (dropWhile is_int_space (rev (dropWhile is_int_space s)));
          neg = (t \<noteq> [] \<and> hd t = CHR ''-'');
          body = (if t \<noteq> [] \<and> (hd t = CHR ''-'' \<or> hd t = CHR ''+'') then tl t else t)
      in if int_body body
         then Some ((if neg then - 1 else 1) * int (digits_val (filter is_digit body)))
         else None)"

section \<open>The regular expressions of the scraper\<close>

text \<open>
  Each fixed pattern of \<open>scraper.py\<close> is written out as the function that the backtracking
  matcher of \<open>re\<close> computes for it.
\<close>

subsection \<open>\<open>([a-zA-Z]+)\s+(\d{4})\<close>, searched\<close>

definition match_month_year :: "string \<Rightarrow> (string \<times> string) option" where
  \<comment> \<open>a match that starts at the first character: the whole run of letters (a shorter
      run is followed by a letter, not by \<open>\s\<close>), the whole run of whitespace, four digits\<close>
  "match_month_year s =
     (let w = takeWhile is_alpha s; r = dropWhile is_alpha s;
          g = takeWhile is_space r; y = dropWhile is_space r
      in if w \<noteq> [] \<and> g \<noteq> [] \<and> 4 \<le> length y \<and> list_all is_digit (take 4 y)
         then Some (w, take 4 y) else None)"

fun search_month_year :: "string \<Rightarrow> (string \<times> string) option" where
  \<comment> \<open>\<open>re.search\<close>: the leftmost position with a match; \<open>None\<close> when there is none\<close>
  "search_month_year [] = None"
| "search_month_year (c # cs) =
     (case match_month_year (c # cs) of
        Some m \<Rightarrow> Some m
      | None \<Rightarrow> search_month_year cs)"

subsection \<open>\<open>^([^\s]{1,6})\.\s+(.+)$\<close>, matched\<close>

definition dot_plus_end :: "string \<Rightarrow> string option" where
  \<comment> \<open>\<open>(.+)$\<close>: a run of characters other than the newline, not empty, that reaches the
      end of the string or the newline that ends it\<close>
  "dot_plus_end t =
     (let run = takeWhile (\<lambda>c. c \<noteq> CHR 0x0A) t; rest = dropWhile (\<lambda>c. c \<noteq> CHR 0x0A) t
      in if run \<noteq> [] \<and> (rest = [] \<or> rest = [CHR 0x0A]) then Some run else None)"

fun spaces_then_rest :: "nat \<Rightarrow> string \<Rightarrow> string option" where
  \<comment> \<open>\<open>\s+(.+)$\<close> on a string that starts with \<open>j\<close> whitespace characters: \<open>\s+\<close> takes
      \<open>j\<close> of them first, then fewer\<close>
  "spaces_then_rest 0 r = None"
| "spaces_then_rest (Suc j) r =
     (case dot_plus_end (drop (Suc j) r) of
        Some x \<Rightarrow> Some x
      | None \<Rightarrow> spaces_then_rest j r)"

definition after_prefix :: "nat \<Rightarrow> string \<Rightarrow> (string \<times> string) option" where
  \<comment> \<open>the match whose first group is the first \<open>k\<close> characters\<close>
  "after_prefix k t =
     (case drop k t of
        [] \<Rightarrow> None
      | d # r \<Rightarrow>
          if d = CHR ''.''
          then (case spaces_then_rest (length (takeWhile is_space r)) r of
                  Some x \<Rightarrow> Some (take k t, x)
                | None \<Rightarrow> None)
          else None)"

fun try_prefix :: "nat \<Rightarrow> string \<Rightarrow> (string \<times> string) option" where
  \<comment> \<open>\<open>[^\s]{1,6}\<close> is greedy: the longest first group first\<close>
  "try_prefix 0 t = None"
| "try_prefix (Suc k) t =
     (case after_prefix (Suc k) t of
        Some m \<Rightarrow> Some m
      | None \<Rightarrow> try_prefix k t)"

definition match_title :: "string \<Rightarrow> (string \<times> string) option" where
  \<comment> \<open>\<open>re.match(r'^([^\s]{1,6})\.\s+(.+)$', title)\<close>: the groups 1 and 2\<close>
  "match_title t = try_prefix (min 6 (length (takeWhile (\<lambda>c. \<not> is_space c) t))) t"

subsection \<open>\<open>\d{3}-\d{1,5}-\d{1,7}-\d{1}\<close>, matched\<close>

definition digits_dash :: "nat \<Rightarrow> nat \<Rightarrow> string \<Rightarrow> string option" where
  \<comment> \<open>\<open>\d{lo,hi}-\<close>: the whole run of digits, of a length from \<open>lo\<close> to \<open>hi\<close>, and the
      dash; what follows them\<close>
  "digits_dash lo hi s =
     (let ds = takeWhile is_digit s; r = dropWhile is_digit s
      in if lo \<le> length ds \<and> length ds \<le> hi \<and> r \<noteq> [] \<and> hd r = CHR ''-''
         then Some (tl r) else None)"

definition isbn_match :: "string \<Rightarrow> bool" where
  \<comment> \<open>\<open>re.match\<close> finds a match at the start of the string; the string may go on after it\<close>
  "isbn_match s =
     (case digits_dash 3 3 s of
        None \<Rightarrow> False
      | Some r1 \<Rightarrow>
          (case digits_dash 1 5 r1 of
             None \<Rightarrow> False
           | Some r2 \<Rightarrow>
               (case digits_dash 1 7 r2 of
                  None \<Rightarrow> False
                | Some r3 \<Rightarrow> r3 \<noteq> [] \<and> is_digit (hd r3))))"

section \<open>DateParser\<close>

definition MONTHS :: "(string \<times> nat) list" where
  "MONTHS = [(''january'', 1), (''february'', 2), (''march'', 3), (''april'', 4),
             (''may'', 5), (''june'', 6), (''july'', 7), (''august'', 8),
             (''september'', 9), (''october'', 10), (''november'', 11), (''december'', 12)]"

definition digit_char :: "nat \<Rightarrow> char" where
  "digit_char n = ''0123456789'' ! (n mod 10)"

definition strftime_Y :: "bool \<Rightarrow> nat \<Rightarrow> string" where
  \<comment> \<open>\<open>%Y\<close> of a year from 1 to 9999: four digits from 1000 on; below, the C library
      of the platform decides whether zeros are put in front (\<open>pads\<close>)\<close>
  "strftime_Y pads y =
     (let d = [digit_char (y div 1000), digit_char (y div 100), digit_char (y div 10),
               digit_char y]
      in if pads then d else dropWhile (\<lambda>c. c = CHR ''0'') d)"

definition strftime_ymd :: "bool \<Rightarrow> nat \<Rightarrow> nat \<Rightarrow> nat \<Rightarrow> string" where
  \<comment> \<open>\<open>strftime('%Y-%m-%d')\<close>\<close>
  "strftime_ymd pads y m d =
     strftime_Y pads y @ ''-'' @ [digit_char (m div 10), digit_char m] @
     ''-'' @ [digit_char (d div 10), digit_char d]"

definition parse_release_date :: "bool \<Rightarrow> string \<Rightarrow> string option" where
  "parse_release_date pads date_text =
     (if date_text = [] then None
      else
        let t0 = py_strip (py_lower date_text);
            t = (if startswith t0 ''released '' then py_strip (drop 9 t0) else t0)
        in case search_month_year t of
             None \<Rightarrow> None
           | Some (month_str0, year_str) \<Rightarrow>
               (case map_of MONTHS (py_lower month_str0) of
                  None \<Rightarrow> None
                | Some month_num \<Rightarrow>
                    \<comment> \<open>\<open>datetime(year, month, 1)\<close> raises ValueError outside 1..9999\<close>
                    if 1 \<le> digits_val year_str \<and> digits_val year_str \<le> 9999
                    then Some (strftime_ymd pads (digits_val year_str) month_num 1)
                    else None))"

section \<open>Database\<close>

text \<open>
  The two tables of \<open>bigfinish.db\<close>, keyed by their primary key \<open>url\<close>. A timestamp is a
  number of seconds; \<open>now\<close> is what \<open>CURRENT_TIMESTAMP\<close> reads when the statement runs.
\<close>

record url_row =
  visited :: bool
  visited_at :: "nat option"
  discovered_at :: nat

record release =
  url :: string
  title :: "string option"
  series :: "string option"
  release_date :: "string option"
  about :: "string option"
  background :: "string option"
  production :: "string option"
  duration :: "string option"
  isbn :: "string option"
  written_by :: "string option"
  narrated_by :: "string option"
  cover_url :: "string option"
  series_tag :: "string option"

record content_row =
  columns :: release
  created_at :: nat

record database =
  urls :: "string \<rightharpoonup> url_row"
  content :: "string \<rightharpoonup> content_row"

definition add_url :: "nat \<Rightarrow> database \<Rightarrow> string \<Rightarrow> database" where
  \<comment> \<open>\<open>INSERT OR IGNORE INTO urls (url, discovered_at) VALUES (?, CURRENT_TIMESTAMP)\<close>:
      \<open>visited\<close> and \<open>visited_at\<close> take their defaults\<close>
  "add_url now d u =
     (case urls d u of
        Some r \<Rightarrow> d
      | None \<Rightarrow> d\<lparr>urls := (urls d)(u \<mapsto> \<lparr>visited = False, visited_at = None,
                                          discovered_at = now\<rparr>)\<rparr>)"

definition mark_url_visited :: "nat \<Rightarrow> database \<Rightarrow> string \<Rightarrow> database" where
  \<comment> \<open>\<open>INSERT OR REPLACE INTO urls (url, visited, visited_at) VALUES (?, TRUE,
      CURRENT_TIMESTAMP)\<close>: a row with this key is deleted, and the new row takes the
      default \<open>CURRENT_TIMESTAMP\<close> for the column \<open>discovered_at\<close> that the statement leaves out\<close>
  "mark_url_visited now d u =
     d\<lparr>urls := (urls d)(u \<mapsto> \<lparr>visited = True, visited_at = Some now, discovered_at = now\<rparr>)\<rparr>"

definition get_all_urls :: "database \<Rightarrow> (string \<rightharpoonup> bool)" where
  "get_all_urls d = (\<lambda>u. map_option visited (urls d u))"

definition save_content :: "nat \<Rightarrow> database \<Rightarrow> release \<Rightarrow> database" where
  \<comment> \<open>\<open>INSERT OR REPLACE INTO content (...) VALUES (...)\<close>\<close>
  "save_content now d data =
     d\<lparr>content := (content d)(url data \<mapsto> \<lparr>columns = data, created_at = now\<rparr>)\<rparr>"

definition return_data_for_url :: "database \<Rightarrow> string \<Rightarrow> content_row option" where
  "return_data_for_url d u = content d u"

section \<open>Scraper\<close>

text \<open>
  What lies outside the repository is a parameter: the HTTP client, the HTML parser, the
  regular expressions that are built from page content, the C library behind \<open>strftime\<close>
  and the clock. A parsed page is the answers to the queries the scraper puts to it.
\<close>

record product_desc_el =
  h3 :: "string option"             \<comment> \<open>\<open>.text\<close> of the first \<open>h3\<close>\<close>
  h6 :: "string option"             \<comment> \<open>\<open>.text\<close> of the first \<open>h6\<close>\<close>
  paragraphs :: "string list list"  \<comment> \<open>for each \<open>p\<close>, \<open>.text\<close> of each \<open>a\<close> in it\<close>

record img_el =
  src :: "string option"
  alt :: "string option"

record tab_el =
  tab_content :: string             \<comment> \<open>\<open>.text\<close> of the \<open>div\<close>\<close>
  tab_links :: "string list"        \<comment> \<open>\<open>.text\<close> of each \<open>a\<close> in it\<close>

record soup =
  hrefs :: "string option list"             \<comment> \<open>\<open>.get('href')\<close> of each \<open>a\<close>, in page order\<close>
  product_desc :: "product_desc_el option"  \<comment> \<open>the first \<open>div\<close> of class \<open>product-desc\<close>\<close>
  cover_div :: "img_el option option"       \<comment> \<open>that of class \<open>detail-page-image\<close>, and its first \<open>img\<close>\<close>
  release_date_div :: "string option"       \<comment> \<open>\<open>.text\<close> of that of class \<open>release-date\<close>\<close>
  tabs :: "string \<rightharpoonup> tab_el"                 \<comment> \<open>the first \<open>div\<close> of an \<open>id\<close>\<close>

record env =
  http_get :: "string \<Rightarrow> string option"
    \<comment> \<open>the body of the response; \<open>None\<close> when \<open>requests\<close> raises (no answer, or a status
        that \<open>raise_for_status\<close> refuses)\<close>
  html_parser :: "string \<Rightarrow> soup option"
    \<comment> \<open>\<open>BeautifulSoup(html, 'html.parser')\<close>; \<open>None\<close> when it raises\<close>
  re_compiles :: "string \<Rightarrow> bool"
    \<comment> \<open>whether \<open>re\<close> accepts the pattern\<close>
  re_search_ic :: "string \<Rightarrow> string \<Rightarrow> bool"
    \<comment> \<open>whether \<open>re.search(pattern, s, re.IGNORECASE)\<close> finds a match\<close>
  re_sub_ic :: "string \<Rightarrow> string \<Rightarrow> string"
    \<comment> \<open>\<open>re.sub(pattern, '', s, flags=re.IGNORECASE)\<close>\<close>
  strftime_pads :: bool
  now :: nat

record scraper =
  base_url :: string
  all_links :: "(string \<times> bool) list"  \<comment> \<open>a \<open>dict\<close>: its keys in the order they were put in\<close>
  db :: database
  visiting :: "string list"             \<comment> \<open>the links printed as \<open>Visiting ...\<close>, in order\<close>

fun dict_set :: "('k \<times> 'v) list \<Rightarrow> 'k \<Rightarrow> 'v \<Rightarrow> ('k \<times> 'v) list" where
  \<comment> \<open>\<open>d[k] = v\<close>: a key that is there keeps its place\<close>
  "dict_set [] k v = [(k, v)]"
| "dict_set ((k', v') # al) k v =
     (if k' = k then (k, v) # al else (k', v') # dict_set al k v)"

definition get_html :: "env \<Rightarrow> string \<Rightarrow> string option" where
  "get_html E u = http_get E u"

definition allowed_parts :: "bool \<Rightarrow> string list" where
  "allowed_parts only_releases =
     (if \<not> only_releases then [''/releases/'', ''/ranges/'', ''/hubs/'']
      else [''/releases/'', ''/ranges/''])"

definition disallowed_parts :: "string list" where
  "disallowed_parts = [''facebook.com'', ''twitter'', ''youtube'', ''/basket/'', ''/pages/v/'']"

definition must_contain :: "string list" where
  "must_contain = [''bigfinish.com'']"

fun links_loop :: "env \<Rightarrow> bool \<Rightarrow> string option list \<Rightarrow> scraper \<times> string list
                     \<Rightarrow> scraper \<times> string list" where
  \<comment> \<open>the loop \<open>for link in links\<close>, on the scraper and \<open>parsed_links\<close>\<close>
  "links_loop E only_releases [] (s, parsed_links) = (s, parsed_links)"
| "links_loop E only_releases (href # rest) (s, parsed_links) =
     (case href of
        None \<Rightarrow> links_loop E only_releases rest (s, parsed_links)
      | Some h \<Rightarrow>
          if h \<noteq> [] \<and> list_ex (\<lambda>part. contains part h) (allowed_parts only_releases)
               \<and> \<not> list_ex (\<lambda>part. contains part h) disallowed_parts
          then
            (let full_url = (if startswith h ''http'' then h else base_url s @ h)
             in if list_all (\<lambda>part. contains part full_url) must_contain
                then links_loop E only_releases rest
                       (if map_of (all_links s) full_url = None
                        then s\<lparr>all_links := all_links s @ [(full_url, False)],
                               db := add_url (now E) (db s) full_url\<rparr>
                        else s,
                        parsed_links @ [full_url])
                else links_loop E only_releases rest (s, parsed_links))
          else links_loop E only_releases rest (s, parsed_links))"

definition get_all_links :: "env \<Rightarrow> scraper \<Rightarrow> string \<Rightarrow> bool \<Rightarrow> scraper \<times> string list" where
  "get_all_links E s html only_releases =
     (case html_parser E html of
        None \<Rightarrow> (s, [])
      | Some sp \<Rightarrow> links_loop E only_releases (hrefs sp) (s, []))"

definition clean_title :: "string option \<Rightarrow> string option \<times> string option" where
  "clean_title ttl =
     (case ttl of
        None \<Rightarrow> (None, None)
      | Some t \<Rightarrow>
          if t = [] then (None, ttl)
          else (case match_title t of
                  Some (prefix, rest) \<Rightarrow> (Some prefix, Some rest)
                | None \<Rightarrow> (None, ttl)))"

definition fstr :: "string option \<Rightarrow> string" where
  \<comment> \<open>\<open>f"{v}"\<close>\<close>
  "fstr v = (case v of None \<Rightarrow> ''None'' | Some s \<Rightarrow> s)"

definition search_sub :: "env \<Rightarrow> string \<Rightarrow> string option \<Rightarrow> exn + string option" where
  \<comment> \<open>\<open>if re.search(pat, title, re.IGNORECASE): title = re.sub(pat, '', title,
      flags=re.IGNORECASE)\<close>; the pattern is compiled before the title is looked at\<close>
  "search_sub E pat ttl =
     (if \<not> re_compiles E pat then Inl ReError
      else case ttl of
             None \<Rightarrow> Inl TypeError
           | Some t \<Rightarrow> Inr (Some (if re_search_ic E pat t then re_sub_ic E pat t else t)))"

definition colon_space :: string where
  \<comment> \<open>the end \<open>:\s\<close> of the two patterns\<close>
  "colon_space = [CHR '':'', CHR 0x5C, CHR ''s'']"

definition clean_twice :: "string option \<Rightarrow> string option \<times> string option" where
  \<comment> \<open>\<open>series_tag\<close> and \<open>title\<close> after the two calls of \<open>clean_title\<close>; the second call
      is made when the first has found a prefix\<close>
  "clean_twice ttl =
     (case clean_title ttl of
        (None, rest) \<Rightarrow> (None, ttl)
      | (Some prefix, rest) \<Rightarrow>
          if prefix = [] then (None, ttl)
          else
            (case clean_title rest of
               (None, rest2) \<Rightarrow> (Some prefix, rest)
             | (Some prefix2, rest2) \<Rightarrow>
                 if prefix2 = [] then (Some prefix, rest)
                 else (Some (prefix @ ''.'' @ prefix2), rest2)))"

definition title_series :: "env \<Rightarrow> product_desc_el \<Rightarrow> release \<Rightarrow> exn + release" where
  \<comment> \<open>the block \<open>if product_desc:\<close>\<close>
  "title_series E pd data =
     (let d1 = data\<lparr>title := map_option py_strip (h3 pd)\<rparr>;
          d2 = d1\<lparr>series_tag := (case fst (clean_twice (title d1)) of
                                   None \<Rightarrow> series_tag d1
                                 | Some tag \<Rightarrow> Some tag),
                  title := snd (clean_twice (title d1))\<rparr>;
          d3 = d2\<lparr>series := map_option py_strip (h6 pd)\<rparr>
      in case search_sub E (fstr (series d3) @ colon_space) (title d3) of
           Inl e \<Rightarrow> Inl e
         | Inr t1 \<Rightarrow>
             (case series d3 of
                None \<Rightarrow> Inl AttributeError  \<comment> \<open>\<open>None\<close> has no \<open>replace\<close>\<close>
              | Some sr \<Rightarrow>
                  (case search_sub E (py_replace sr '' -'' '':'' @ colon_space) t1 of
                     Inl e \<Rightarrow> Inl e
                   | Inr t2 \<Rightarrow> Inr (d3\<lparr>title := t2\<rparr>))))"

definition cover_image :: "string \<Rightarrow> img_el \<Rightarrow> release \<Rightarrow> release" where
  \<comment> \<open>the block \<open>if cover_img:\<close>\<close>
  "cover_image base img data =
     (let c = (case src img of
                 None \<Rightarrow> None
               | Some u \<Rightarrow> if u \<noteq> [] \<and> \<not> startswith u ''http'' then Some (base @ u) else Some u)
      in data\<lparr>cover_url := c, title := (if truthy (alt img) then alt img else title data)\<rparr>)"

definition first_token :: "string \<Rightarrow> string \<Rightarrow> exn + string" where
  \<comment> \<open>\<open>content.split(marker)[1].split(' ')[0].split('\n')[0]\<close>\<close>
  "first_token marker c =
     (case item (py_split marker c) 1 of
        Inl e \<Rightarrow> Inl e
      | Inr x \<Rightarrow>
          (case item (py_split '' '' x) 0 of
             Inl e \<Rightarrow> Inl e
           | Inr y \<Rightarrow> item (py_split [CHR 0x0A] y) 0))"

definition extract_duration :: "string \<Rightarrow> release \<Rightarrow> exn + release" where
  "extract_duration c data =
     (if contains ''Duration:'' c
      then (case first_token ''Duration: '' c of
              Inl e \<Rightarrow> Inl e
            | Inr t \<Rightarrow> Inr (data\<lparr>duration := Some t\<rparr>))
      else Inr data)"

definition checked_isbn :: "string \<Rightarrow> string \<Rightarrow> exn + string option" where
  \<comment> \<open>the token after the marker, and \<open>None\<close> in its place when \<open>re.match\<close> refuses it\<close>
  "checked_isbn marker c =
     (case first_token marker c of
        Inl e \<Rightarrow> Inl e
      | Inr t \<Rightarrow> Inr (if \<not> isbn_match t then None else Some t))"

definition extract_isbn :: "string \<Rightarrow> release \<Rightarrow> exn + release" where
  "extract_isbn c data =
     (if contains ''Digital Retail ISBN: '' c
      then (case checked_isbn ''Digital Retail ISBN: '' c of
              Inl e \<Rightarrow> Inl e
            | Inr i \<Rightarrow> Inr (data\<lparr>isbn := i\<rparr>))
      else if contains ''Physical Retail ISBN: '' c
      then (case checked_isbn ''Physical Retail ISBN: '' c of
              Inl e \<Rightarrow> Inl e
            | Inr i \<Rightarrow> Inr (data\<lparr>isbn := i\<rparr>))
      else Inr data)"

definition tab_step :: "soup \<Rightarrow> string \<Rightarrow> release \<Rightarrow> exn + release" where
  \<comment> \<open>the body of \<open>for tab_id in ['tab1', 'tab2', 'tab5', 'tab6']\<close>\<close>
  "tab_step sp tab_id data =
     (case tabs sp tab_id of
        None \<Rightarrow> Inr data
      | Some tab \<Rightarrow>
          (let c = py_strip (tab_content tab)
           in if tab_id = ''tab1'' then Inr (data\<lparr>about := Some c\<rparr>)
              else if tab_id = ''tab2'' then Inr (data\<lparr>background := Some c\<rparr>)
              else if tab_id = ''tab5''
              then Inr (data\<lparr>narrated_by := Some (py_join '', '' (map py_strip (tab_links tab)))\<rparr>)
              else if tab_id = ''tab6''
              then (case extract_duration c (data\<lparr>production := Some c\<rparr>) of
                      Inl e \<Rightarrow> Inl e
                    | Inr d \<Rightarrow> extract_isbn c d)
              else Inr data))"

fun tabs_loop :: "soup \<Rightarrow> string list \<Rightarrow> release \<Rightarrow> exn + release" where
  "tabs_loop sp [] data = Inr data"
| "tabs_loop sp (tab_id # rest) data =
     (case tab_step sp tab_id data of
        Inl e \<Rightarrow> Inl e
      | Inr d \<Rightarrow> tabs_loop sp rest d)"

definition empty_data :: "string \<Rightarrow> release" where
  "empty_data u =
     \<lparr>url = u, title = None, series = None, release_date = None, about = None,
      background = None, production = None, duration = None, isbn = None,
      written_by = None, narrated_by = None, cover_url = None, series_tag = None\<rparr>"

definition title_step :: "env \<Rightarrow> soup \<Rightarrow> string \<Rightarrow> exn + release" where
  \<comment> \<open>\<open>data = {...}\<close> and the block \<open>if product_desc:\<close>\<close>
  "title_step E sp u =
     (case product_desc sp of
        None \<Rightarrow> Inr (empty_data u)
      | Some pd \<Rightarrow> title_series E pd (empty_data u))"

definition cover_step :: "string \<Rightarrow> soup \<Rightarrow> release \<Rightarrow> release" where
  \<comment> \<open>the block \<open>if cover_div:\<close>\<close>
  "cover_step base sp data =
     (case cover_div sp of
        None \<Rightarrow> data
      | Some None \<Rightarrow> data
      | Some (Some img) \<Rightarrow> cover_image base img data)"

definition date_step :: "env \<Rightarrow> soup \<Rightarrow> release \<Rightarrow> release" where
  \<comment> \<open>the block \<open>if release_date_div:\<close>\<close>
  "date_step E sp data =
     (case release_date_div sp of
        None \<Rightarrow> data
      | Some t \<Rightarrow>
          (case parse_release_date (strftime_pads E) (py_strip t) of
             None \<Rightarrow> data
           | Some parsed_date \<Rightarrow>
               if parsed_date = [] then data
               else data\<lparr>release_date := Some parsed_date\<rparr>))"

definition credits_step :: "soup \<Rightarrow> release \<Rightarrow> release" where
  \<comment> \<open>writers and narrators from the paragraphs of the description block\<close>
  "credits_step sp data =
     (let ps = (case product_desc sp of None \<Rightarrow> [] | Some pd \<Rightarrow> paragraphs pd);
          d4 = (if length ps > 0
                then data\<lparr>written_by := Some (py_join '', '' (map py_strip (ps ! 0)))\<rparr>
                else data)
      in if length ps > 1
         then d4\<lparr>narrated_by := Some (py_join '', '' (map py_strip (ps ! 1)))\<rparr>
         else d4)"

definition extract_fields :: "env \<Rightarrow> string \<Rightarrow> string \<Rightarrow> soup \<Rightarrow> exn + release" where
  \<comment> \<open>\<open>parse_data\<close> from \<open>data = {...}\<close> to the end of the loop over the tabs\<close>
  "extract_fields E base u sp =
     (case title_step E sp u of
        Inl e \<Rightarrow> Inl e
      | Inr d1 \<Rightarrow>
          tabs_loop sp [''tab1'', ''tab2'', ''tab5'', ''tab6'']
            (credits_step sp (date_step E sp (cover_step base sp d1))))"

definition parse_data :: "env \<Rightarrow> scraper \<Rightarrow> string \<Rightarrow> string
                          \<Rightarrow> exn + scraper \<times> release option" where
  \<comment> \<open>the scraper with the record saved, and what \<open>parse_data\<close> returns\<close>
  "parse_data E s u html =
     (case html_parser E html of
        None \<Rightarrow> Inr (s, None)
      | Some sp \<Rightarrow>
          (case extract_fields E (base_url s) u sp of
             Inl e \<Rightarrow> Inl e
           | Inr data \<Rightarrow> Inr (s\<lparr>db := save_content (now E) (db s) data\<rparr>, Some data)))"

definition is_detail :: "string \<Rightarrow> bool" where
  "is_detail link = contains ''/releases/v/'' link"

definition visit :: "env \<Rightarrow> scraper \<Rightarrow> string \<Rightarrow> exn + scraper" where
  \<comment> \<open>the body of \<open>for link in unvisited_links\<close>\<close>
  "visit E s link =
     (let s0 = s\<lparr>visiting := visiting s @ [link]\<rparr>
      in case get_html E link of
           None \<Rightarrow> Inr s0
         | Some html \<Rightarrow>
             if html = [] then Inr s0
             else
               (let s1 = fst (get_all_links E s0 html True)
                in case (if is_detail link
                         then (case parse_data E s1 link html of
                                 Inl e \<Rightarrow> Inl e
                               | Inr (s2, data) \<Rightarrow> Inr s2)
                         else Inr s1) of
                     Inl e \<Rightarrow> Inl e
                   | Inr s2 \<Rightarrow>
                       Inr (s2\<lparr>db := mark_url_visited (now E) (db s2) link,
                               all_links := dict_set (all_links s2) link True\<rparr>)))"

fun visit_all :: "env \<Rightarrow> string list \<Rightarrow> scraper \<Rightarrow> exn + scraper" where
  \<comment> \<open>\<open>for link in unvisited_links\<close>; an exception ends the loop\<close>
  "visit_all E [] s = Inr s"
| "visit_all E (link # rest) s =
     (case visit E s link of
        Inl e \<Rightarrow> Inl e
      | Inr s' \<Rightarrow> visit_all E rest s')"

definition unvisited_links :: "scraper \<Rightarrow> string list" where
  "unvisited_links s = map fst (filter (\<lambda>(link, v). \<not> v \<and> is_detail link) (all_links s))"

fun crawl :: "nat \<Rightarrow> env \<Rightarrow> scraper \<Rightarrow> (exn + scraper) option" where
  \<comment> \<open>\<open>while True\<close>, for at most \<open>n\<close> rounds: \<open>None\<close> when the loop has not left by then\<close>
  "crawl 0 E s = None"
| "crawl (Suc n) E s =
     (if unvisited_links s = [] then Some (Inr s)
      else case visit_all E (unvisited_links s) s of
             Inl e \<Rightarrow> Some (Inl e)
           | Inr s' \<Rightarrow> crawl n E s')"

definition seed :: "env \<Rightarrow> scraper \<Rightarrow> scraper" where
  \<comment> \<open>the start of \<open>run\<close>: with no stored URL, the links of the base page\<close>
  "seed E s =
     (if all_links s = []
      then (case get_html E (base_url s) of
              None \<Rightarrow> s
            | Some html \<Rightarrow> if html = [] then s else fst (get_all_links E s html False))
      else s)"

definition run :: "nat \<Rightarrow> env \<Rightarrow> scraper \<Rightarrow> (exn + scraper) option" where
  "run n E s = crawl n E (seed E s)"

section \<open>The two search APIs\<close>

text \<open>
  \<open>fuzz.ratio\<close> lies outside the repository: \<open>ratio\<close> is a parameter. \<open>list.sort\<close> with
  \<open>reverse=True\<close> and a key is the stable sort by falling key.
\<close>

definition py_sort_desc :: "('a \<Rightarrow> int) \<Rightarrow> 'a list \<Rightarrow> 'a list" where
  "py_sort_desc key xs = sort_key (\<lambda>x. - key x) xs"

definition duration_minutes :: "string option \<Rightarrow> int option" where
  \<comment> \<open>\<open>duration_minutes\<close> after the \<open>try\<close>: \<open>None\<close> unless the text is there, is not empty
      and \<open>int\<close> reads it\<close>
  "duration_minutes d =
     (case d of
        None \<Rightarrow> None
      | Some t \<Rightarrow> if t = [] then None else py_int t)"

definition split_names :: "string option \<Rightarrow> string list option" where
  \<comment> \<open>\<open>v.split(', ') if v else None\<close>\<close>
  "split_names v =
     (case v of
        None \<Rightarrow> None
      | Some t \<Rightarrow> if t = [] then None else Some (py_split '', '' t))"

subsection \<open>web-api.py\<close>

record audio_book_response =
  r_url :: "string option"
  r_title :: "string option"
  r_subtitle :: "string option"
  r_author :: "string option"
  r_authors :: "string list option"
  r_narrators :: "string list option"
  r_narrator :: "string option"
  r_publisher :: string
  r_cover :: "string option"
  r_series :: "(string option \<times> string option) list"
  r_language :: string
  r_duration :: "int option"
  r_isbn :: "string option"
  r_description :: "string option"
  r_publishedYear :: "string option"
  r_publishedDate :: "string option"
  r_abridged :: bool
  r_explicit :: bool

definition book_data :: "release \<Rightarrow> audio_book_response" where
  "book_data row =
     \<lparr>r_url = Some (url row),
      r_title = title row,
      r_subtitle = None,
      r_author = written_by row,
      r_authors = split_names (written_by row),
      r_narrators = split_names (narrated_by row),
      r_narrator = narrated_by row,
      r_publisher = ''Big Finish'',
      r_cover = cover_url row,
      r_series = [(series row, series_tag row)],
      r_language = ''English'',
      r_duration = (case duration_minutes (duration row) of
                      None \<Rightarrow> None
                    | Some n \<Rightarrow> if n \<noteq> 0 then Some n else None),
      r_isbn = isbn row,
      r_description = about row,
      r_publishedYear = (case release_date row of
                           None \<Rightarrow> None
                         | Some d \<Rightarrow> if d = [] then None
                                     else (case py_split ''-'' d of [] \<Rightarrow> None | y # ys \<Rightarrow> Some y)),
      r_publishedDate = (if truthy (release_date row) then release_date row else None),
      r_abridged = False,
      r_explicit = False\<rparr>"

fun scored_matches :: "(string \<Rightarrow> string \<Rightarrow> int) \<Rightarrow> string \<Rightarrow> release option list
                         \<Rightarrow> exn + (int \<times> release) list" where
  \<comment> \<open>the loop \<open>for match in top_matches\<close>: \<open>match['title'].lower()\<close> raises on a match
      that is \<open>None\<close> and on a title that is \<open>None\<close>\<close>
  "scored_matches ratio query [] = Inr []"
| "scored_matches ratio query (m # ms) =
     (case m of
        None \<Rightarrow> Inl TypeError
      | Some row \<Rightarrow>
          (case title row of
             None \<Rightarrow> Inl AttributeError
           | Some t \<Rightarrow>
               (case scored_matches ratio query ms of
                  Inl e \<Rightarrow> Inl e
                | Inr rest \<Rightarrow> Inr ((ratio (py_lower query) (py_lower t), row) # rest))))"

definition sorted_matches :: "(string \<Rightarrow> string \<Rightarrow> int) \<Rightarrow> string \<Rightarrow> release option list
                              \<Rightarrow> exn + (int \<times> release) list" where
  \<comment> \<open>\<open>scored_matches\<close> after \<open>sort(reverse=True, key=itemgetter(0))\<close>\<close>
  "sorted_matches ratio query top_matches =
     (case scored_matches ratio query top_matches of
        Inl e \<Rightarrow> Inl e
      | Inr scored \<Rightarrow> Inr (py_sort_desc fst scored))"

definition search_audiobooks :: "(string \<Rightarrow> string \<Rightarrow> int) \<Rightarrow> string \<Rightarrow> release option list
                                 \<Rightarrow> exn + audio_book_response list" where
  \<comment> \<open>\<open>top_matches\<close> is what \<open>Search().search(query)\<close> returned\<close>
  "search_audiobooks ratio query top_matches =
     (case sorted_matches ratio query top_matches of
        Inl e \<Rightarrow> Inl e
      | Inr ms \<Rightarrow> Inr (map (\<lambda>(score, row). book_data row) ms))"

subsection \<open>outdated_scraper-api.py\<close>

record outdated_response =
  o_title :: "string option"
  o_subtitle :: "string option"
  o_author :: "string list option"
  o_narrator :: "string list option"
  o_publisher :: string
  o_cover :: "string option"
  o_series :: "(string option \<times> string option) list"
  o_language :: string
  o_duration :: "int option"
  o_abridged :: bool
  o_explicit :: bool

definition outdated_book_data :: "release \<Rightarrow> outdated_response" where
  "outdated_book_data row =
     \<lparr>o_title = title row,
      o_subtitle = None,
      o_author = split_names (written_by row),
      o_narrator = split_names (narrated_by row),
      o_publisher = ''Big Finish'',
      o_cover = cover_url row,
      o_series = [(series row, series_tag row)],
      o_language = ''English'',
      o_duration = (case duration_minutes (duration row) of
                      None \<Rightarrow> None
                    | Some n \<Rightarrow> if n \<noteq> 0 then Some (n * 60) else None),
      o_abridged = False,
      o_explicit = False\<rparr>"

fun matched_results :: "(string \<Rightarrow> string \<Rightarrow> int) \<Rightarrow> string \<Rightarrow> release list
                          \<Rightarrow> (int \<times> release) list" where
  \<comment> \<open>the loop \<open>for row in results\<close>\<close>
  "matched_results ratio query [] = []"
| "matched_results ratio query (row # rows) =
     (case title row of
        None \<Rightarrow> matched_results ratio query rows
      | Some t \<Rightarrow>
          if t \<noteq> [] \<and> ratio (py_lower query) (py_lower t) > 60
          then (ratio (py_lower query) (py_lower t), row) # matched_results ratio query rows
          else matched_results ratio query rows)"

definition outdated_top_matches :: "(string \<Rightarrow> string \<Rightarrow> int) \<Rightarrow> string \<Rightarrow> release list
                                    \<Rightarrow> (int \<times> release) list" where
  \<comment> \<open>\<open>matched_results\<close> sorted, and its first five\<close>
  "outdated_top_matches ratio query results =
     take 5 (py_sort_desc fst (matched_results ratio query results))"

definition outdated_search_audiobooks :: "(string \<Rightarrow> string \<Rightarrow> int) \<Rightarrow> string \<Rightarrow> release list
                                          \<Rightarrow> outdated_response list" where
  \<comment> \<open>\<open>results\<close> is the table \<open>content\<close>, in the order the query returned it\<close>
  "outdated_search_audiobooks ratio query results =
     map (\<lambda>(score, row). outdated_book_data row) (outdated_top_matches ratio query results)"

section \<open>Definitions used to state the properties\<close>

definition blank_zero_duration :: "release \<Rightarrow> release" where
  \<comment> \<open>the record with a duration that \<open>int\<close> reads as 0 taken out\<close>
  "blank_zero_duration row =
     (case duration row of
        None \<Rightarrow> row
      | Some t \<Rightarrow> if py_int t = Some 0 then row\<lparr>duration := None\<rparr> else row)"

definition score_of :: "(string \<Rightarrow> string \<Rightarrow> int) \<Rightarrow> string \<Rightarrow> release \<Rightarrow> int" where
  \<comment> \<open>the score of a row against the query\<close>
  "score_of ratio query row =
     (case title row of None \<Rightarrow> 0 | Some t \<Rightarrow> ratio (py_lower query) (py_lower t))"

definition candidates :: "(string \<Rightarrow> string \<Rightarrow> int) \<Rightarrow> string \<Rightarrow> release list
                          \<Rightarrow> (int \<times> release) list" where
  \<comment> \<open>the rows with their scores, in the order they came\<close>
  "candidates ratio query rows = map (\<lambda>row. (score_of ratio query row, row)) rows"

definition flux :: release where
  "flux = (empty_data ''https://www.bigfinish.com/releases/v/1'')\<lparr>title := Some ''Flux''\<rparr>"

definition tale :: release where
  "tale = (empty_data ''https://www.bigfinish.com/releases/v/2'')\<lparr>title := Some ''Tale''\<rparr>"

definition ratio_95_10 :: "string \<Rightarrow> string \<Rightarrow> int" where
  \<comment> \<open>a scorer for the examples: 95 for the title \<open>flux\<close>, 10 for any other\<close>
  "ratio_95_10 a b = (if b = ''flux'' then 95 else 10)"

definition full_url_of :: "string \<Rightarrow> string \<Rightarrow> string" where
  \<comment> \<open>the absolute URL of a link target\<close>
  "full_url_of base h = (if startswith h ''http'' then h else base @ h)"

definition kept :: "bool \<Rightarrow> string \<Rightarrow> string \<Rightarrow> bool" where
  \<comment> \<open>the test a link target must pass, written out\<close>
  "kept only_releases base h =
     ((contains ''/releases/'' h \<or> contains ''/ranges/'' h
         \<or> (\<not> only_releases \<and> contains ''/hubs/'' h))
      \<and> \<not> contains ''facebook.com'' h \<and> \<not> contains ''twitter'' h
      \<and> \<not> contains ''youtube'' h \<and> \<not> contains ''/basket/'' h
      \<and> \<not> contains ''/pages/v/'' h
      \<and> contains ''bigfinish.com'' (full_url_of base h))"

definition remember :: "env \<Rightarrow> scraper \<Rightarrow> string \<Rightarrow> scraper" where
  \<comment> \<open>a URL that is new is put in the frontier and in the table, not visited\<close>
  "remember E s u =
     (if map_of (all_links s) u = None
      then s\<lparr>all_links := all_links s @ [(u, False)], db := add_url (now E) (db s) u\<rparr>
      else s)"

definition example_soup :: soup where
  \<comment> \<open>the page of the example: three links\<close>
  "example_soup =
     \<lparr>hrefs = [Some ''/releases/v/123'', Some ''https://facebook.com/x'', Some ''/basket/''],
      product_desc = None, cover_div = None, release_date_div = None, tabs = Map.empty\<rparr>"

definition example_env :: env where
  \<comment> \<open>an environment whose parser returns that page for every body\<close>
  "example_env =
     \<lparr>http_get = (\<lambda>u. None), html_parser = (\<lambda>h. Some example_soup),
      re_compiles = (\<lambda>p. True), re_search_ic = (\<lambda>p t. False), re_sub_ic = (\<lambda>p t. t),
      strftime_pads = False, now = 0\<rparr>"

definition fresh_scraper :: scraper where
  \<comment> \<open>a scraper that knows no URL yet\<close>
  "fresh_scraper =
     \<lparr>base_url = ''https://www.bigfinish.com'', all_links = [],
      db = \<lparr>urls = Map.empty, content = Map.empty\<rparr>, visiting = []\<rparr>"

definition is_alnum :: "char \<Rightarrow> bool" where
  \<comment> \<open>a digit or a letter of \<open>[a-zA-Z]\<close>\<close>
  "is_alnum c = (is_digit c \<or> is_alpha c)"

definition dotted_alnum_tag :: "string \<Rightarrow> bool" where
  \<comment> \<open>the shape the specification gives a series tag: one or two parts joined by a dot, each of one to six letters or digits\<close>
  "dotted_alnum_tag s =
     (let parts = py_split ''.'' s
      in (length parts = 1 \<or> length parts = 2)
         \<and> list_all (\<lambda>p. 1 \<le> length p \<and> length p \<le> 6 \<and> list_all is_alnum p) parts)"

definition detail_soup :: soup where
  \<comment> \<open>a detail page with a title and a series\<close>
  "detail_soup =
     \<lparr>hrefs = [],
      product_desc = Some \<lparr>h3 = Some ''1.2. The Actual Title'', h6 = Some ''The Series'',
                            paragraphs = []\<rparr>,
      cover_div = None, release_date_div = None, tabs = Map.empty\<rparr>"

definition tag_part :: "string \<Rightarrow> bool" where
  \<comment> \<open>what the first group of the pattern holds: one to six characters, none of them whitespace\<close>
  "tag_part x = (1 \<le> length x \<and> length x \<le> 6 \<and> list_all (\<lambda>c. \<not> is_space c) x)"

definition token_end :: "char \<Rightarrow> bool" where
  \<comment> \<open>where a token ends: the space and the newline\<close>
  "token_end c = (c = CHR '' '' \<or> c = CHR 0x0A)"

definition isbn_by_spec :: "string \<Rightarrow> string option" where
  \<comment> \<open>the ISBN in the specification's words: the text after the digital marker when the text holds it, else after the physical marker (the piece that \<open>split\<close> gives: it ends where the marker stands again), cut at the first space or newline, and dropped unless the pattern matches at its start\<close>
  "isbn_by_spec c =
     (let pick = (\<lambda>m. case after_sep m c of
                         None \<Rightarrow> None
                       | Some r \<Rightarrow>
                           (let t = takeWhile (\<lambda>ch. \<not> token_end ch) (before_sep m r)
                            in if isbn_match t then Some t else None))
      in if contains ''Digital Retail ISBN: '' c then pick ''Digital Retail ISBN: ''
         else if contains ''Physical Retail ISBN: '' c then pick ''Physical Retail ISBN: ''
         else None)"

definition production_soup :: soup where
  \<comment> \<open>a page whose production tab gives a duration and both ISBN lines\<close>
  "production_soup =
     \<lparr>hrefs = [], product_desc = None, cover_div = None, release_date_div = None,
      tabs = [''tab6'' \<mapsto>
               \<lparr>tab_content = '' Duration: 60 minutes'' @ [CHR 0x0A]
                    @ ''Digital Retail ISBN: 978-1-4028-9462-6 Physical Retail ISBN: N/A '',
                tab_links = []\<rparr>]\<rparr>"

definition isbn_ok :: "string option \<Rightarrow> bool" where
  \<comment> \<open>absent, or accepted by the pattern\<close>
  "isbn_ok i = (case i of None \<Rightarrow> True | Some t \<Rightarrow> isbn_match t)"

definition env_for :: "soup \<Rightarrow> env" where
  \<comment> \<open>an environment whose parser returns the page \<open>sp\<close> for every body; every request fails, every pattern compiles and none matches\<close>
  "env_for sp =
     \<lparr>http_get = (\<lambda>u. None), html_parser = (\<lambda>h. Some sp),
      re_compiles = (\<lambda>p. True), re_search_ic = (\<lambda>p t. False), re_sub_ic = (\<lambda>p t. t),
      strftime_pads = False, now = 0\<rparr>"

definition no_series_soup :: soup where
  \<comment> \<open>a detail page whose description block has a title and no series heading\<close>
  "no_series_soup =
     \<lparr>hrefs = [],
      product_desc = Some \<lparr>h3 = Some ''The Actual Title'', h6 = None, paragraphs = []\<rparr>,
      cover_div = None, release_date_div = None, tabs = Map.empty\<rparr>"

definition one_link_scraper :: scraper where
  \<comment> \<open>a scraper that knows one detail page, not visited\<close>
  "one_link_scraper =
     \<lparr>base_url = ''https://www.bigfinish.com'',
      all_links = [(''https://www.bigfinish.com/releases/v/1'', False)],
      db = \<lparr>urls = Map.empty, content = Map.empty\<rparr>, visiting = []\<rparr>"

section \<open>Properties of the search APIs\<close>

lemma book_data_blank: "book_data (blank_zero_duration row) = book_data row"
  by (auto simp: blank_zero_duration_def book_data_def duration_minutes_def
           split: option.splits)

lemma outdated_book_data_blank:
  "outdated_book_data (blank_zero_duration row) = outdated_book_data row"
  by (auto simp: blank_zero_duration_def outdated_book_data_def duration_minutes_def
           split: option.splits)

lemma title_blank: "title (blank_zero_duration row) = title row"
  by (simp add: blank_zero_duration_def split: option.splits)

lemma insort_key_map:
  "(\<And>x. f (g x) = f x) \<Longrightarrow> insort_key f (g x) (map g xs) = map g (insort_key f x xs)"
  by (induction xs) auto

lemma sort_key_map:
  "(\<And>x. f (g x) = f x) \<Longrightarrow> sort_key f (map g xs) = map g (sort_key f xs)"
  by (induction xs) (auto simp: insort_key_map)

lemma py_sort_desc_map:
  "(\<And>x. key (g x) = key x) \<Longrightarrow> py_sort_desc key (map g xs) = map g (py_sort_desc key xs)"
  unfolding py_sort_desc_def by (rule sort_key_map) simp

lemma scored_blank:
  "scored_matches ratio query (map (map_option blank_zero_duration) ms) =
     map_sum id (map (\<lambda>(sc, row). (sc, blank_zero_duration row)))
       (scored_matches ratio query ms)"
  by (induction ms) (auto simp: title_blank split: option.splits sum.splits)

lemma matched_blank:
  "matched_results ratio query (map blank_zero_duration rows) =
     map (\<lambda>(sc, row). (sc, blank_zero_duration row)) (matched_results ratio query rows)"
  by (induction rows) (auto simp: title_blank split: option.splits)

lemma search_blank:
  "search_audiobooks ratio query (map (map_option blank_zero_duration) ms) =
     search_audiobooks ratio query ms"
  by (cases "scored_matches ratio query ms")
     (simp_all add: search_audiobooks_def sorted_matches_def scored_blank py_sort_desc_map
        split_def book_data_blank comp_def)

lemma outdated_search_blank:
  "outdated_search_audiobooks ratio query (map blank_zero_duration rows) =
     outdated_search_audiobooks ratio query rows"
  by (simp add: outdated_search_audiobooks_def outdated_top_matches_def matched_blank
        py_sort_desc_map split_def outdated_book_data_blank comp_def take_map)

lemma py_int_0: "py_int ''0'' = Some 0"
  by (simp add: py_int_def is_int_space_def is_digit_def digits_val_def digit_val_def)

lemma py_int_NA: "py_int ''N/A'' = None"
  by (simp add: py_int_def is_int_space_def is_digit_def digits_val_def digit_val_def)

text \<open>
  C10. In both APIs a record whose duration text \<open>int\<close> reads as 0 is answered with no
  duration, and the answer is the one given for a record with no duration and for a
  record whose duration is not a number: the response built from the row is the same,
  and so is the whole answer of either endpoint when such durations are taken out of
  the candidates.
\<close>

theorem zero_duration_absent:
  assumes "py_int t = Some 0" and "py_int t' = None"
  shows "r_duration (book_data (row\<lparr>duration := Some t\<rparr>)) = None
       \<and> o_duration (outdated_book_data (row\<lparr>duration := Some t\<rparr>)) = None
       \<and> book_data (row\<lparr>duration := Some t\<rparr>) = book_data (row\<lparr>duration := None\<rparr>)
       \<and> book_data (row\<lparr>duration := Some t'\<rparr>) = book_data (row\<lparr>duration := None\<rparr>)
       \<and> outdated_book_data (row\<lparr>duration := Some t\<rparr>)
           = outdated_book_data (row\<lparr>duration := None\<rparr>)
       \<and> outdated_book_data (row\<lparr>duration := Some t'\<rparr>)
           = outdated_book_data (row\<lparr>duration := None\<rparr>)
       \<and> search_audiobooks ratio query (map (map_option blank_zero_duration) ms)
           = search_audiobooks ratio query ms
       \<and> outdated_search_audiobooks ratio query (map blank_zero_duration rows)
           = outdated_search_audiobooks ratio query rows"
  using assms
  by (simp add: search_blank outdated_search_blank book_data_def outdated_book_data_def
        duration_minutes_def)

theorem zero_duration_absent_witness:
  "py_int ''0'' = Some 0 \<and> py_int ''N/A'' = None
   \<and> r_duration (book_data ((empty_data ''u'')\<lparr>duration := Some ''0''\<rparr>)) = None
   \<and> o_duration (outdated_book_data ((empty_data ''u'')\<lparr>duration := Some ''0''\<rparr>)) = None
   \<and> book_data ((empty_data ''u'')\<lparr>duration := Some ''N/A''\<rparr>)
       = book_data ((empty_data ''u'')\<lparr>duration := None\<rparr>)"
  using zero_duration_absent [OF py_int_0 py_int_NA, of "empty_data ''u''" "\<lambda>a b. 0" "[]" "[]" "[]"]
    py_int_0 py_int_NA
  by blast

section \<open>Properties of the database\<close>

text \<open>
  C9. \<open>mark_url_visited\<close> on a URL that \<open>add_url\<close> stored at time 100 leaves, at time 200,
  a row whose \<open>discovered_at\<close> is 200: the row is replaced whole, and the time of discovery
  is lost.
\<close>

theorem mark_visited_resets_discovered_at:
  "urls (add_url 100 \<lparr>urls = Map.empty, content = Map.empty\<rparr>
           ''https://www.bigfinish.com/releases/v/1'')
      ''https://www.bigfinish.com/releases/v/1''
     = Some \<lparr>visited = False, visited_at = None, discovered_at = 100\<rparr>
   \<and> urls (mark_url_visited 200
             (add_url 100 \<lparr>urls = Map.empty, content = Map.empty\<rparr>
                ''https://www.bigfinish.com/releases/v/1'')
             ''https://www.bigfinish.com/releases/v/1'')
      ''https://www.bigfinish.com/releases/v/1''
     = Some \<lparr>visited = True, visited_at = Some 200, discovered_at = 200\<rparr>"
  by (simp add: add_url_def mark_url_visited_def)

section \<open>The two ranking policies\<close>

lemma matched_results_filter:
  "matched_results ratio query results =
     filter (\<lambda>c. 60 < fst c)
       (candidates ratio query (filter (\<lambda>row. truthy (title row)) results))"
  by (induction results)
     (auto simp: candidates_def score_of_def truthy_def split: option.splits)

lemma scored_matches_all:
  "list_all (\<lambda>row. title row \<noteq> None) rows \<Longrightarrow>
     scored_matches ratio query (map Some rows) = Inr (candidates ratio query rows)"
  by (induction rows) (auto simp: candidates_def score_of_def split: option.splits)

lemma sorted_desc: "sorted (rev (map f (py_sort_desc f xs)))"
proof -
  have "sorted (map (\<lambda>x. - f x) (py_sort_desc f xs))"
    unfolding py_sort_desc_def by (rule sorted_sort_key)
  then show ?thesis
    by (simp add: sorted_wrt_rev sorted_wrt_map sorted_map flip: rev_map)
qed

lemma sort_desc_stable:
  "filter (\<lambda>c. f c = k) (py_sort_desc f xs) = filter (\<lambda>c. f c = k) xs"
  using sort_key_stable [of "\<lambda>x. - f x" "- k" xs] by (simp add: py_sort_desc_def)

lemma mset_sort_desc: "mset (py_sort_desc f xs) = mset xs"
  by (simp add: py_sort_desc_def)

text \<open>
  C8, as amended. The local variant (\<open>outdated_scraper-api.py\<close>) keeps the first five of
  \<open>full\<close>, where \<open>full\<close> holds exactly the rows with a title that is not empty and a score
  above 60 (a score of 60 itself is dropped), in falling order of score, rows of equal
  score in the order they came; its answer never has more than five entries. The live
  variant (\<open>web-api.py\<close>), on candidates that all have a title, keeps every candidate, in
  falling order of score, rows of equal score in the order they came.
\<close>

theorem ranking_policies:
  assumes "list_all (\<lambda>row. title row \<noteq> None) rows"
  shows "(\<exists>full. outdated_top_matches ratio query results = take 5 full
            \<and> mset full = mset (filter (\<lambda>c. 60 < fst c)
                 (candidates ratio query (filter (\<lambda>row. truthy (title row)) results)))
            \<and> sorted (rev (map fst full))
            \<and> (\<forall>k. filter (\<lambda>c. fst c = k) full = filter (\<lambda>c. fst c = k)
                 (filter (\<lambda>c. 60 < fst c)
                    (candidates ratio query (filter (\<lambda>row. truthy (title row)) results)))))
       \<and> length (outdated_search_audiobooks ratio query results) \<le> 5
       \<and> (\<exists>out. sorted_matches ratio query (map Some rows) = Inr out
            \<and> mset out = mset (candidates ratio query rows)
            \<and> sorted (rev (map fst out))
            \<and> (\<forall>k. filter (\<lambda>c. fst c = k) out
                     = filter (\<lambda>c. fst c = k) (candidates ratio query rows))
            \<and> search_audiobooks ratio query (map Some rows)
                = Inr (map (\<lambda>(score, row). book_data row) out))"
proof (intro conjI)
  show "\<exists>full. outdated_top_matches ratio query results = take 5 full
            \<and> mset full = mset (filter (\<lambda>c. 60 < fst c)
                 (candidates ratio query (filter (\<lambda>row. truthy (title row)) results)))
            \<and> sorted (rev (map fst full))
            \<and> (\<forall>k. filter (\<lambda>c. fst c = k) full = filter (\<lambda>c. fst c = k)
                 (filter (\<lambda>c. 60 < fst c)
                    (candidates ratio query (filter (\<lambda>row. truthy (title row)) results))))"
    by (rule exI [of _ "py_sort_desc fst (matched_results ratio query results)"])
       (simp add: outdated_top_matches_def mset_sort_desc sorted_desc sort_desc_stable
          flip: matched_results_filter)
  show "length (outdated_search_audiobooks ratio query results) \<le> 5"
    by (simp add: outdated_search_audiobooks_def outdated_top_matches_def)
  show "\<exists>out. sorted_matches ratio query (map Some rows) = Inr out
            \<and> mset out = mset (candidates ratio query rows)
            \<and> sorted (rev (map fst out))
            \<and> (\<forall>k. filter (\<lambda>c. fst c = k) out
                     = filter (\<lambda>c. fst c = k) (candidates ratio query rows))
            \<and> search_audiobooks ratio query (map Some rows)
                = Inr (map (\<lambda>(score, row). book_data row) out)"
    by (rule exI [of _ "py_sort_desc fst (candidates ratio query rows)"])
       (simp add: search_audiobooks_def sorted_matches_def scored_matches_all [OF assms]
          mset_sort_desc sorted_desc sort_desc_stable)
qed

lemma example_rows_titled: "list_all (\<lambda>row. title row \<noteq> None) [tale, flux]"
  by (simp add: tale_def flux_def)

theorem ranking_policies_witness:
  "list_all (\<lambda>row. title row \<noteq> None) [tale, flux]
   \<and> length (outdated_search_audiobooks ratio_95_10 ''Flux'' [tale, flux]) \<le> 5
   \<and> outdated_top_matches ratio_95_10 ''Flux'' [tale, flux] = [(95, flux)]
   \<and> sorted_matches ratio_95_10 ''Flux'' [Some tale, Some flux] = Inr [(95, flux), (10, tale)]"
proof -
  have a: "length (outdated_search_audiobooks ratio_95_10 ''Flux'' [tale, flux]) \<le> 5"
    using ranking_policies [OF example_rows_titled, of ratio_95_10 "''Flux''" "[tale, flux]"]
    by blast
  have low: "py_lower ''Flux'' = ''flux''" "py_lower ''Tale'' = ''tale''"
    by (simp_all add: py_lower_def lower_char_def upper_chars_def lower_chars_def)
  have b: "outdated_top_matches ratio_95_10 ''Flux'' [tale, flux] = [(95, flux)]"
    by (simp add: outdated_top_matches_def py_sort_desc_def tale_def flux_def empty_data_def
          ratio_95_10_def low)
  have c: "sorted_matches ratio_95_10 ''Flux'' [Some tale, Some flux]
             = Inr [(95, flux), (10, tale)]"
    by (simp add: sorted_matches_def py_sort_desc_def tale_def flux_def empty_data_def
          ratio_95_10_def low)
  show ?thesis using example_rows_titled a b c by blast
qed

theorem threshold_counterexample:
  "\<not> (60::int) < 60
   \<and> outdated_top_matches (\<lambda>a b. 60) ''Flux'' [flux] = []
   \<and> outdated_search_audiobooks (\<lambda>a b. 60) ''Flux'' [flux] = []"
  by (simp add: outdated_search_audiobooks_def outdated_top_matches_def flux_def
        empty_data_def py_sort_desc_def)

section \<open>The link classifier\<close>

lemma startswith_iff: "startswith s p \<longleftrightarrow> (\<exists>b. s = p @ b)"
  unfolding startswith_def
  by (metis append_eq_conv_conj append_take_drop_id)

lemma contains_iff: "contains p s \<longleftrightarrow> (\<exists>a b. s = a @ p @ b)"
proof (induction s)
  case Nil
  then show ?case by auto
next
  case (Cons c cs)
  show ?case
  proof
    assume "contains p (c # cs)"
    then consider "startswith (c # cs) p" | "contains p cs" by auto
    then show "\<exists>a b. c # cs = a @ p @ b"
    proof cases
      case 1
      then obtain b where "c # cs = p @ b" by (auto simp: startswith_iff)
      then have "c # cs = [] @ p @ b" by simp
      then show ?thesis by blast
    next
      case 2
      with Cons.IH obtain a b where "cs = a @ p @ b" by auto
      then have "c # cs = (c # a) @ p @ b" by simp
      then show ?thesis by blast
    qed
  next
    assume "\<exists>a b. c # cs = a @ p @ b"
    then obtain a b where ab: "c # cs = a @ p @ b" by auto
    show "contains p (c # cs)"
    proof (cases a)
      case Nil
      with ab have "startswith (c # cs) p" by (auto simp: startswith_iff)
      then show ?thesis by simp
    next
      case (Cons x xs)
      with ab have "cs = xs @ p @ b" by simp
      with Cons.IH show ?thesis by auto
    qed
  qed
qed

lemma contains_nonempty: "contains p h \<Longrightarrow> p \<noteq> [] \<Longrightarrow> h \<noteq> []"
  by (cases h) auto

lemma links_loop_Some:
  "links_loop E only_releases (Some h # rest) (s, acc) =
     (if kept only_releases (base_url s) h
      then links_loop E only_releases rest
             (remember E s (full_url_of (base_url s) h), acc @ [full_url_of (base_url s) h])
      else links_loop E only_releases rest (s, acc))"
proof -
  have a: "list_ex (\<lambda>part. contains part h) (allowed_parts only_releases)
           \<longleftrightarrow> (contains ''/releases/'' h \<or> contains ''/ranges/'' h
                \<or> (\<not> only_releases \<and> contains ''/hubs/'' h))"
    by (simp add: allowed_parts_def list_ex_iff)
  have d: "list_ex (\<lambda>part. contains part h) disallowed_parts
           \<longleftrightarrow> (contains ''facebook.com'' h \<or> contains ''twitter'' h
                \<or> contains ''youtube'' h \<or> contains ''/basket/'' h \<or> contains ''/pages/v/'' h)"
    by (simp add: disallowed_parts_def list_ex_iff)
  have m: "\<And>u. list_all (\<lambda>part. contains part u) must_contain \<longleftrightarrow> contains ''bigfinish.com'' u"
    by (simp add: must_contain_def list_all_iff)
  have ne: "contains ''/releases/'' h \<or> contains ''/ranges/'' h
                \<or> (\<not> only_releases \<and> contains ''/hubs/'' h) \<Longrightarrow> h \<noteq> []"
    using contains_nonempty by blast
  show ?thesis
    unfolding links_loop.simps option.case a d m Let_def
    using ne by (auto simp only: kept_def full_url_of_def remember_def split: if_splits)
qed

lemma remember_base: "base_url (remember E s u) = base_url s"
  by (simp add: remember_def)

lemma remember_map_of:
  "map_of (all_links (remember E s u)) x =
     (case map_of (all_links s) x of
        Some v \<Rightarrow> Some v
      | None \<Rightarrow> if x = u then Some False else None)"
  by (auto simp: remember_def map_add_def split: option.splits)

lemma links_loop_result:
  "links_loop E only_releases hs (s, acc) = (s', out) \<Longrightarrow>
     base_url s' = base_url s
     \<and> out = acc @ map (full_url_of (base_url s))
                     (filter (kept only_releases (base_url s)) [h. Some h \<leftarrow> hs])
     \<and> (\<forall>x. map_of (all_links s') x =
           (case map_of (all_links s) x of
              Some v \<Rightarrow> Some v
            | None \<Rightarrow> if x \<in> set (map (full_url_of (base_url s))
                         (filter (kept only_releases (base_url s)) [h. Some h \<leftarrow> hs]))
                      then Some False else None))"
proof (induction hs arbitrary: s acc)
  case Nil
  then show ?case by (auto split: option.splits)
next
  case (Cons href rest)
  show ?case
  proof (cases href)
    case None
    with Cons show ?thesis by simp
  next
    case (Some h)
    show ?thesis
    proof (cases "kept only_releases (base_url s) h")
      case False
      with Cons.prems Some
      have "links_loop E only_releases rest (s, acc) = (s', out)"
        by (simp only: links_loop_Some if_False)
      from Cons.IH [OF this] False Some show ?thesis by simp
    next
      case True
      let ?u = "full_url_of (base_url s) h"
      from Cons.prems Some True
      have "links_loop E only_releases rest (remember E s ?u, acc @ [?u]) = (s', out)"
        by (simp only: links_loop_Some if_True)
      from Cons.IH [OF this] True Some show ?thesis
        by (auto simp: remember_base remember_map_of split: option.splits)
    qed
  qed
qed

text \<open>
  C7. On a page that the parser reads, \<open>get_all_links\<close> returns, in page order and with
  repeats, the absolute URL of exactly the link targets that contain \<open>/releases/\<close> or
  \<open>/ranges/\<close> (or \<open>/hubs/\<close> when not restricted to releases), contain none of
  \<open>facebook.com\<close>, \<open>twitter\<close>, \<open>youtube\<close>, \<open>/basket/\<close>, \<open>/pages/v/\<close>, and whose
  absolute URL (the target itself when it starts with \<open>http\<close>, the base URL followed by
  the target otherwise) contains \<open>bigfinish.com\<close>. What is returned does not depend on
  the frontier: a URL already known is returned again and keeps its state; a new one
  enters the frontier as not visited.
\<close>

theorem link_classifier:
  assumes "html_parser E html = Some sp"
  shows "snd (get_all_links E s html only_releases) =
           map (\<lambda>h. if startswith h ''http'' then h else base_url s @ h)
             (filter (\<lambda>h. (contains ''/releases/'' h \<or> contains ''/ranges/'' h
                              \<or> (\<not> only_releases \<and> contains ''/hubs/'' h))
                          \<and> \<not> contains ''facebook.com'' h \<and> \<not> contains ''twitter'' h
                          \<and> \<not> contains ''youtube'' h \<and> \<not> contains ''/basket/'' h
                          \<and> \<not> contains ''/pages/v/'' h
                          \<and> contains ''bigfinish.com''
                               (if startswith h ''http'' then h else base_url s @ h))
                [h. Some h \<leftarrow> hrefs sp])
       \<and> (\<forall>x. map_of (all_links (fst (get_all_links E s html only_releases))) x =
             (case map_of (all_links s) x of
                Some v \<Rightarrow> Some v
              | None \<Rightarrow> if x \<in> set (snd (get_all_links E s html only_releases))
                        then Some False else None))"
proof -
  obtain s' out where r: "links_loop E only_releases (hrefs sp) (s, []) = (s', out)"
    by (cases "links_loop E only_releases (hrefs sp) (s, [])") auto
  have g: "get_all_links E s html only_releases = (s', out)"
    using assms r by (simp add: get_all_links_def)
  have k: "kept only_releases (base_url s) = (\<lambda>h. (contains ''/releases/'' h \<or> contains ''/ranges/'' h
                              \<or> (\<not> only_releases \<and> contains ''/hubs/'' h))
                          \<and> \<not> contains ''facebook.com'' h \<and> \<not> contains ''twitter'' h
                          \<and> \<not> contains ''youtube'' h \<and> \<not> contains ''/basket/'' h
                          \<and> \<not> contains ''/pages/v/'' h
                          \<and> contains ''bigfinish.com''
                               (if startswith h ''http'' then h else base_url s @ h))"
    by (rule ext) (simp only: kept_def full_url_of_def)
  have f: "full_url_of (base_url s) = (\<lambda>h. if startswith h ''http'' then h else base_url s @ h)"
    by (rule ext) (simp only: full_url_of_def)
  note R = links_loop_result [OF r]
  have o: "out = map (full_url_of (base_url s))
                   (filter (kept only_releases (base_url s)) [h. Some h \<leftarrow> hrefs sp])"
    using R by simp
  have m: "\<forall>x. map_of (all_links s') x =
             (case map_of (all_links s) x of
                Some v \<Rightarrow> Some v
              | None \<Rightarrow> if x \<in> set out then Some False else None)"
    unfolding o by (rule R [THEN conjunct2, THEN conjunct2])
  show ?thesis
    unfolding g fst_conv snd_conv using o [unfolded k f] m by (rule conjI)
qed

lemma example_parses: "html_parser example_env ''<html>'' = Some example_soup"
  by (simp add: example_env_def)

theorem link_classifier_witness:
  "html_parser example_env ''<html>'' = Some example_soup
   \<and> snd (get_all_links example_env fresh_scraper ''<html>'' True)
       = [''https://www.bigfinish.com/releases/v/123'']"
proof -
  have "snd (get_all_links example_env fresh_scraper ''<html>'' True)
       = [''https://www.bigfinish.com/releases/v/123'']"
    using link_classifier [OF example_parses, of fresh_scraper True, THEN conjunct1]
    by (simp add: example_soup_def fresh_scraper_def startswith_def)
  with example_parses show ?thesis by simp
qed

section \<open>The series tag\<close>

lemma dot_plus_end_Some:
  assumes "dot_plus_end u = Some r"
  shows "r \<noteq> [] \<and> CHR 0x0A \<notin> set r \<and> (u = r \<or> u = r @ [CHR 0x0A])"
proof -
  let ?run = "takeWhile (\<lambda>c. c \<noteq> CHR 0x0A) u"
  let ?rest = "dropWhile (\<lambda>c. c \<noteq> CHR 0x0A) u"
  from assms have c: "?run \<noteq> [] \<and> (?rest = [] \<or> ?rest = [CHR 0x0A])" and r: "r = ?run"
    unfolding dot_plus_end_def Let_def by (simp_all split: if_splits)
  have u: "u = ?run @ ?rest" by simp
  have n: "CHR 0x0A \<notin> set ?run" using set_takeWhileD by fastforce
  from c consider "?rest = []" | "?rest = [CHR 0x0A]" by blast
  then have "u = ?run \<or> u = ?run @ [CHR 0x0A]"
  proof cases
    case 1
    with u show ?thesis by (metis append_Nil2)
  next
    case 2
    with u show ?thesis by metis
  qed
  with c n r show ?thesis by simp
qed

lemma spaces_then_rest_Some:
  "spaces_then_rest m r = Some x \<Longrightarrow> \<exists>j. 1 \<le> j \<and> j \<le> m \<and> dot_plus_end (drop j r) = Some x"
proof (induction m)
  case 0
  then show ?case by simp
next
  case (Suc m)
  show ?case
  proof (cases "dot_plus_end (drop (Suc m) r)")
    case None
    with Suc.prems have "spaces_then_rest m r = Some x" by simp
    from Suc.IH [OF this] show ?thesis by (meson le_Suc_eq)
  next
    case (Some y)
    with Suc.prems have "y = x" by simp
    with Some show ?thesis by (intro exI [of _ "Suc m"]) simp
  qed
qed

lemma try_prefix_Some:
  "try_prefix n t = Some m \<Longrightarrow> \<exists>k. 1 \<le> k \<and> k \<le> n \<and> after_prefix k t = Some m"
proof (induction n)
  case 0
  then show ?case by simp
next
  case (Suc n)
  show ?case
  proof (cases "after_prefix (Suc n) t")
    case None
    with Suc.prems have "try_prefix n t = Some m" by simp
    from Suc.IH [OF this] show ?thesis by (meson le_Suc_eq)
  next
    case (Some y)
    with Suc.prems have "y = m" by simp
    with Some show ?thesis by (intro exI [of _ "Suc n"]) simp
  qed
qed

lemma after_prefix_Some:
  "after_prefix k t = Some (x, r) \<Longrightarrow>
     x = take k t \<and> (\<exists>u. drop k t = CHR ''.'' # u
        \<and> spaces_then_rest (length (takeWhile is_space u)) u = Some r)"
  unfolding after_prefix_def
  by (auto split: list.splits if_splits option.splits)

lemma take_takeWhile_all:
  "j \<le> length (takeWhile P u) \<Longrightarrow> list_all P (take j u)"
proof (induction u arbitrary: j)
  case Nil
  then show ?case by simp
next
  case (Cons c cs)
  then show ?case by (cases j) (auto split: if_splits)
qed

lemma match_title_Some:
  assumes "match_title t = Some (x, r)"
  shows "tag_part x \<and> r \<noteq> [] \<and> CHR 0x0A \<notin> set r
       \<and> (\<exists>ws. ws \<noteq> [] \<and> list_all is_space ws
              \<and> (t = x @ ''.'' @ ws @ r \<or> t = x @ ''.'' @ ws @ r @ [CHR 0x0A]))"
proof -
  let ?n = "length (takeWhile (\<lambda>c. \<not> is_space c) t)"
  from assms obtain k where k: "1 \<le> k" "k \<le> min 6 ?n" and ap: "after_prefix k t = Some (x, r)"
    unfolding match_title_def using try_prefix_Some by blast
  from after_prefix_Some [OF ap] obtain u where
    x: "x = take k t" and d: "drop k t = CHR ''.'' # u"
    and sp: "spaces_then_rest (length (takeWhile is_space u)) u = Some r" by blast
  from spaces_then_rest_Some [OF sp] obtain j where
    j: "1 \<le> j" "j \<le> length (takeWhile is_space u)" and de: "dot_plus_end (drop j u) = Some r"
    by blast
  note e = dot_plus_end_Some [OF de]
  have kn: "k \<le> ?n" using k by simp
  have "?n \<le> length t" by (rule length_takeWhile_le)
  with kn have lx: "length x = k" using x by simp
  have nx: "list_all (\<lambda>c. \<not> is_space c) x" unfolding x using kn by (rule take_takeWhile_all)
  have tp: "tag_part x" using lx nx k by (simp add: tag_part_def)
  let ?ws = "take j u"
  have "length (takeWhile is_space u) \<le> length u" by (rule length_takeWhile_le)
  with j have "?ws \<noteq> []" by auto
  moreover have "list_all is_space ?ws" using j(2) by (rule take_takeWhile_all)
  moreover have t: "t = x @ ''.'' @ ?ws @ drop j u"
  proof -
    have "t = take k t @ drop k t" by simp
    also have "\<dots> = x @ CHR ''.'' # (take j u @ drop j u)" using x d by simp
    finally show ?thesis by simp
  qed
  moreover have "t = x @ ''.'' @ ?ws @ r \<or> t = x @ ''.'' @ ?ws @ r @ [CHR 0x0A]"
  proof -
    from e have "drop j u = r \<or> drop j u = r @ [CHR 0x0A]" by blast
    then show ?thesis
    proof
      assume "drop j u = r"
      with t show ?thesis by simp
    next
      assume "drop j u = r @ [CHR 0x0A]"
      with t show ?thesis by simp
    qed
  qed
  ultimately have "\<exists>ws. ws \<noteq> [] \<and> list_all is_space ws
              \<and> (t = x @ ''.'' @ ws @ r \<or> t = x @ ''.'' @ ws @ r @ [CHR 0x0A])"
    by blast
  with tp e show ?thesis by blast
qed

lemma dot_not_space: "\<not> is_space (CHR ''.'')"
  by (simp add: is_space_def)

lemma dot_plus_end_plain:
  assumes "r \<noteq> []" "CHR 0x0A \<notin> set r"
  shows "dot_plus_end r = Some r"
proof -
  have tw: "takeWhile (\<lambda>c. c \<noteq> CHR 0x0A) r = r"
    using assms(2) by (intro takeWhile_eq_all_conv [THEN iffD2]) auto
  have dw: "dropWhile (\<lambda>c. c \<noteq> CHR 0x0A) r = []"
    using assms(2) by (intro dropWhile_eq_Nil_conv [THEN iffD2]) auto
  show ?thesis unfolding dot_plus_end_def Let_def tw dw using assms(1) by simp
qed

lemma takeWhile_append_stop:
  "list_all P xs \<Longrightarrow> ys \<noteq> [] \<Longrightarrow> \<not> P (hd ys) \<Longrightarrow> takeWhile P (xs @ ys) = xs"
  by (induction xs) (auto simp: neq_Nil_conv)

lemma spaces_then_rest_first:
  "m \<ge> 1 \<Longrightarrow> dot_plus_end (drop m u) = Some r \<Longrightarrow> spaces_then_rest m u = Some r"
  by (cases m) auto

lemma try_prefix_at:
  "1 \<le> k \<Longrightarrow> k \<le> n \<Longrightarrow> after_prefix k t = Some m
     \<Longrightarrow> (\<And>k'. k < k' \<Longrightarrow> k' \<le> n \<Longrightarrow> after_prefix k' t = None)
     \<Longrightarrow> try_prefix n t = Some m"
proof (induction n)
  case 0
  then show ?case by simp
next
  case (Suc n)
  show ?case
  proof (cases "k = Suc n")
    case True
    with Suc.prems show ?thesis by simp
  next
    case False
    with Suc.prems have "after_prefix (Suc n) t = None" by simp
    moreover have "try_prefix n t = Some m"
      using Suc.IH Suc.prems False by simp
    ultimately show ?thesis by simp
  qed
qed

lemma match_title_complete:
  assumes x: "tag_part x" and ws: "ws \<noteq> []" "list_all is_space ws"
    and r: "r \<noteq> []" "\<not> is_space (hd r)" "CHR 0x0A \<notin> set r"
  shows "match_title (x @ ''.'' @ ws @ r) = Some (x, r)"
proof -
  let ?t = "x @ ''.'' @ ws @ r"
  let ?k = "length x"
  from x have lx: "1 \<le> ?k" "?k \<le> 6" and nx: "list_all (\<lambda>c. \<not> is_space c) x"
    by (simp_all add: tag_part_def)
  from ws have hw: "is_space (hd ws)" by (cases ws) auto
  have tw: "takeWhile (\<lambda>c. \<not> is_space c) ?t = x @ ''.''"
  proof -
    have "takeWhile (\<lambda>c. \<not> is_space c) ((x @ ''.'') @ (ws @ r)) = x @ ''.''"
      using nx ws hw by (intro takeWhile_append_stop) (auto simp: dot_not_space)
    then show ?thesis by simp
  qed
  have n: "min 6 (length (takeWhile (\<lambda>c. \<not> is_space c) ?t)) = min 6 (Suc ?k)"
    unfolding tw by simp
  have sp: "takeWhile is_space (ws @ r) = ws"
    using ws r by (intro takeWhile_append_stop) auto
  have "spaces_then_rest (length ws) (ws @ r) = Some r"
    using ws r by (intro spaces_then_rest_first) (auto simp: dot_plus_end_plain Suc_le_eq)
  then have ap: "after_prefix ?k ?t = Some (x, r)"
    by (simp add: after_prefix_def sp)
  have above: "after_prefix k' ?t = None" if "?k < k'" "k' \<le> min 6 (Suc ?k)" for k'
  proof -
    from that have k': "k' = Suc ?k" by simp
    have "drop k' ?t = ws @ r" unfolding k' by simp
    moreover have "hd (ws @ r) \<noteq> CHR ''.''" using ws hw dot_not_space by auto
    ultimately show ?thesis using ws by (cases ws) (auto simp: after_prefix_def)
  qed
  have "try_prefix (min 6 (Suc ?k)) ?t = Some (x, r)"
    using lx ap above by (intro try_prefix_at [of ?k]) auto
  then show ?thesis unfolding match_title_def n .
qed

lemma clean_title_Some:
  "clean_title ttl = (Some x, rest) \<Longrightarrow>
     \<exists>t r. ttl = Some t \<and> rest = Some r \<and> match_title t = Some (x, r)"
  by (auto simp: clean_title_def split: option.splits if_splits)

lemma clean_twice_tag:
  "fst (clean_twice ttl) = None
   \<or> (\<exists>x. fst (clean_twice ttl) = Some x \<and> tag_part x)
   \<or> (\<exists>x y. fst (clean_twice ttl) = Some (x @ ''.'' @ y) \<and> tag_part x \<and> tag_part y)"
proof (cases "clean_title ttl")
  case (Pair p rest)
  show ?thesis
  proof (cases p)
    case None
    with Pair show ?thesis by (simp add: clean_twice_def)
  next
    case (Some x)
    with Pair clean_title_Some obtain t r where
      "match_title t = Some (x, r)" by blast
    then have px: "tag_part x" using match_title_Some by blast
    then have xn: "x \<noteq> []" by (auto simp: tag_part_def)
    obtain p2 rest2 where c2: "clean_title rest = (p2, rest2)" by (cases "clean_title rest")
    show ?thesis
    proof (cases p2)
      case None
      with Pair Some c2 xn px show ?thesis by (simp add: clean_twice_def)
    next
      case (Some y)
      with c2 clean_title_Some obtain t2 r2 where "match_title t2 = Some (y, r2)" by blast
      then have py: "tag_part y" using match_title_Some by blast
      then have yn: "y \<noteq> []" by (auto simp: tag_part_def)
      from Pair \<open>p = Some x\<close> c2 Some xn yn have "fst (clean_twice ttl) = Some (x @ ''.'' @ y)"
        by (simp add: clean_twice_def)
      with px py show ?thesis by blast
    qed
  qed
qed

lemma series_tag_duration: "extract_duration c d = Inr d' \<Longrightarrow> series_tag d' = series_tag d"
  by (auto simp: extract_duration_def split: if_splits sum.splits)

lemma series_tag_isbn: "extract_isbn c d = Inr d' \<Longrightarrow> series_tag d' = series_tag d"
  by (auto simp: extract_isbn_def split: if_splits sum.splits)

lemma series_tag_tab_step: "tab_step sp i d = Inr d' \<Longrightarrow> series_tag d' = series_tag d"
  by (auto simp: tab_step_def Let_def split: option.splits if_splits sum.splits
           dest!: series_tag_duration series_tag_isbn)

lemma series_tag_tabs_loop: "tabs_loop sp ids d = Inr d' \<Longrightarrow> series_tag d' = series_tag d"
  by (induction ids arbitrary: d) (auto split: sum.splits dest: series_tag_tab_step)

lemma series_tag_title_series:
  "title_series E pd (empty_data u) = Inr d \<Longrightarrow>
     series_tag d = fst (clean_twice (map_option py_strip (h3 pd)))"
  by (auto simp: title_series_def Let_def empty_data_def split: sum.splits option.splits)

lemma series_tag_empty: "series_tag (empty_data u) = None"
  by (simp add: empty_data_def)

lemma series_tag_title_step:
  "title_step E sp u = Inr d \<Longrightarrow>
     series_tag d = (case product_desc sp of
                       None \<Rightarrow> None
                     | Some pd \<Rightarrow> fst (clean_twice (map_option py_strip (h3 pd))))"
  by (auto simp: title_step_def series_tag_empty split: option.splits
           dest: series_tag_title_series)

lemma series_tag_cover_step: "series_tag (cover_step base sp d) = series_tag d"
  by (simp add: cover_step_def cover_image_def Let_def split: option.splits)

lemma series_tag_date_step: "series_tag (date_step E sp d) = series_tag d"
  by (simp add: date_step_def split: option.splits)

lemma series_tag_credits_step: "series_tag (credits_step sp d) = series_tag d"
  by (simp add: credits_step_def Let_def)

lemma series_tag_extract_fields:
  assumes "extract_fields E base u sp = Inr d"
  shows "series_tag d = (case product_desc sp of
                       None \<Rightarrow> None
                     | Some pd \<Rightarrow> fst (clean_twice (map_option py_strip (h3 pd))))"
proof -
  from assms obtain d1 where t: "title_step E sp u = Inr d1"
    and l: "tabs_loop sp [''tab1'', ''tab2'', ''tab5'', ''tab6'']
              (credits_step sp (date_step E sp (cover_step base sp d1))) = Inr d"
    unfolding extract_fields_def by (cases "title_step E sp u") auto
  from series_tag_tabs_loop [OF l] have "series_tag d = series_tag d1"
    by (simp add: series_tag_credits_step series_tag_date_step series_tag_cover_step)
  with series_tag_title_step [OF t] show ?thesis by simp
qed

lemma clean_twice_match:
  assumes "t \<noteq> []"
  shows "clean_twice (Some t) =
           (case match_title t of
              None \<Rightarrow> (None, Some t)
            | Some (x, r) \<Rightarrow>
                (case match_title r of
                   None \<Rightarrow> (Some x, Some r)
                 | Some (y, r2) \<Rightarrow> (Some (x @ ''.'' @ y), Some r2)))"
proof (cases "match_title t")
  case None
  with assms show ?thesis by (simp add: clean_twice_def clean_title_def)
next
  case (Some m)
  obtain x r where m: "m = (x, r)" by (cases m)
  from match_title_Some [OF Some [unfolded m]] have x: "x \<noteq> []" and r: "r \<noteq> []"
    by (auto simp: tag_part_def)
  show ?thesis
  proof (cases "match_title r")
    case None
    with Some m x r assms show ?thesis by (simp add: clean_twice_def clean_title_def)
  next
    case (Some m2)
    obtain y r2 where m2: "m2 = (y, r2)" by (cases m2)
    from match_title_Some [OF Some [unfolded m2]] have y: "y \<noteq> []"
      by (auto simp: tag_part_def)
    with \<open>match_title t = Some m\<close> Some m m2 x r assms show ?thesis
      by (simp add: clean_twice_def clean_title_def)
  qed
qed

text \<open>
  C5, as amended. \<open>clean_title\<close> matches a title exactly when it is \<open>X\<close>, a dot,
  whitespace and a rest on one line, with \<open>X\<close> of one to six characters that are not
  whitespace (the title may end in one newline, which is left out of the rest); the two
  calls split off \<open>X\<close> and, when the rest matches again, \<open>Y\<close>, and the tag is \<open>X\<close> or
  \<open>X.Y\<close>. The title \<open>1.2. The Actual Title\<close> gives the tag \<open>1.2\<close> and the title
  \<open>The Actual Title\<close>; \<open>The Actual Title\<close> gives no tag and stays as it is. The series
  tag of every extracted record is absent, or \<open>X\<close>, or \<open>X.Y\<close>, with \<open>X\<close> and \<open>Y\<close> of one
  to six characters that are not whitespace: they may hold dots and characters that
  are neither letters nor digits.
\<close>

theorem clean_title_twice:
  "(match_title t = Some (x, r) \<longrightarrow>
      tag_part x \<and> r \<noteq> [] \<and> CHR 0x0A \<notin> set r
      \<and> (\<exists>ws. ws \<noteq> [] \<and> list_all is_space ws
             \<and> (t = x @ ''.'' @ ws @ r \<or> t = x @ ''.'' @ ws @ r @ [CHR 0x0A])))
   \<and> (tag_part x' \<and> ws' \<noteq> [] \<and> list_all is_space ws' \<and> r' \<noteq> [] \<and> \<not> is_space (hd r')
        \<and> CHR 0x0A \<notin> set r' \<longrightarrow>
      match_title (x' @ ''.'' @ ws' @ r') = Some (x', r'))
   \<and> (t0 \<noteq> [] \<longrightarrow>
      clean_twice (Some t0) =
        (case match_title t0 of
           None \<Rightarrow> (None, Some t0)
         | Some (a, b) \<Rightarrow>
             (case match_title b of
                None \<Rightarrow> (Some a, Some b)
              | Some (c, d) \<Rightarrow> (Some (a @ ''.'' @ c), Some d))))
   \<and> clean_twice (Some ''1.2. The Actual Title'') = (Some ''1.2'', Some ''The Actual Title'')
   \<and> clean_twice (Some ''The Actual Title'') = (None, Some ''The Actual Title'')
   \<and> (extract_fields E base u sp = Inr data \<longrightarrow>
      series_tag data = None
      \<or> (\<exists>p. series_tag data = Some p \<and> tag_part p)
      \<or> (\<exists>p q. series_tag data = Some (p @ ''.'' @ q) \<and> tag_part p \<and> tag_part q))"
proof (intro conjI impI)
  assume "match_title t = Some (x, r)"
  from match_title_Some [OF this]
  show "tag_part x" "r \<noteq> []" "CHR 0x0A \<notin> set r"
    "\<exists>ws. ws \<noteq> [] \<and> list_all is_space ws
             \<and> (t = x @ ''.'' @ ws @ r \<or> t = x @ ''.'' @ ws @ r @ [CHR 0x0A])"
    by blast+
next
  assume "tag_part x' \<and> ws' \<noteq> [] \<and> list_all is_space ws' \<and> r' \<noteq> [] \<and> \<not> is_space (hd r')
        \<and> CHR 0x0A \<notin> set r'"
  then show "match_title (x' @ ''.'' @ ws' @ r') = Some (x', r')"
    using match_title_complete by blast
next
  assume "t0 \<noteq> []"
  then show "clean_twice (Some t0) =
        (case match_title t0 of
           None \<Rightarrow> (None, Some t0)
         | Some (a, b) \<Rightarrow>
             (case match_title b of
                None \<Rightarrow> (Some a, Some b)
              | Some (c, d) \<Rightarrow> (Some (a @ ''.'' @ c), Some d)))"
    by (rule clean_twice_match)
next
  show "clean_twice (Some ''1.2. The Actual Title'') = (Some ''1.2'', Some ''The Actual Title'')"
    by code_simp
next
  show "clean_twice (Some ''The Actual Title'') = (None, Some ''The Actual Title'')"
    by code_simp
next
  assume "extract_fields E base u sp = Inr data"
  from series_tag_extract_fields [OF this]
  show "series_tag data = None
      \<or> (\<exists>p. series_tag data = Some p \<and> tag_part p)
      \<or> (\<exists>p q. series_tag data = Some (p @ ''.'' @ q) \<and> tag_part p \<and> tag_part q)"
    using clean_twice_tag by (cases "product_desc sp") auto
qed

theorem clean_title_twice_witness:
  "match_title ''1.2. The Actual Title'' = Some (''1.2'', ''The Actual Title'')
   \<and> tag_part ''1.2''
   \<and> tag_part ''1'' \<and> '' '' \<noteq> [] \<and> list_all is_space '' '' \<and> ''2. Title'' \<noteq> []
   \<and> \<not> is_space (hd ''2. Title'') \<and> CHR 0x0A \<notin> set ''2. Title''
   \<and> match_title (''1'' @ ''.'' @ '' '' @ ''2. Title'') = Some (''1'', ''2. Title'')
   \<and> ''1. 2. Title'' \<noteq> []
   \<and> clean_twice (Some ''1. 2. Title'') = (Some ''1.2'', Some ''Title'')
   \<and> extract_fields example_env ''https://www.bigfinish.com'' ''u'' detail_soup
       = Inr ((empty_data ''u'')\<lparr>title := Some ''The Actual Title'',
                series := Some ''The Series'', series_tag := Some ''1.2''\<rparr>)
   \<and> series_tag ((empty_data ''u'')\<lparr>title := Some ''The Actual Title'',
                series := Some ''The Series'', series_tag := Some ''1.2''\<rparr>) = Some ''1.2''"
proof -
  note T = clean_title_twice [of "''1.2. The Actual Title''" "''1.2''" "''The Actual Title''"
     "''1''" "'' ''" "''2. Title''" "''1. 2. Title''" example_env "''https://www.bigfinish.com''"
     "''u''" detail_soup "(empty_data ''u'')\<lparr>title := Some ''The Actual Title'',
                series := Some ''The Series'', series_tag := Some ''1.2''\<rparr>"]
  have h1: "match_title ''1.2. The Actual Title'' = Some (''1.2'', ''The Actual Title'')"
    by code_simp
  have c1: "tag_part ''1.2''" using T h1 by blast
  have h2: "tag_part ''1'' \<and> '' '' \<noteq> [] \<and> list_all is_space '' '' \<and> ''2. Title'' \<noteq> []
   \<and> \<not> is_space (hd ''2. Title'') \<and> CHR 0x0A \<notin> set ''2. Title''"
    by code_simp
  have c2: "match_title (''1'' @ ''.'' @ '' '' @ ''2. Title'') = Some (''1'', ''2. Title'')"
    using T h2 by blast
  have h3: "''1. 2. Title'' \<noteq> []" by simp
  have m3: "(case match_title ''1. 2. Title'' of
           None \<Rightarrow> (None, Some ''1. 2. Title'')
         | Some (a, b) \<Rightarrow>
             (case match_title b of
                None \<Rightarrow> (Some a, Some b)
              | Some (c, d) \<Rightarrow> (Some (a @ ''.'' @ c), Some d))) = (Some ''1.2'', Some ''Title'')"
    by code_simp
  have c3: "clean_twice (Some ''1. 2. Title'') = (Some ''1.2'', Some ''Title'')"
    using T h3 m3 by metis
  have h4: "extract_fields example_env ''https://www.bigfinish.com'' ''u'' detail_soup
       = Inr ((empty_data ''u'')\<lparr>title := Some ''The Actual Title'',
                series := Some ''The Series'', series_tag := Some ''1.2''\<rparr>)"
    by code_simp
  have c4: "series_tag ((empty_data ''u'')\<lparr>title := Some ''The Actual Title'',
                series := Some ''The Series'', series_tag := Some ''1.2''\<rparr>) = Some ''1.2''"
    by simp
  show ?thesis using h1 c1 h2 c2 h3 c3 h4 c4 by blast
qed

text \<open>
  The claim as stated fails: the title \<open>1.2.3. The Title\<close> gives the tag \<open>1.2.3\<close>, of
  three parts, and \<open>#1. The Title\<close> gives \<open>#1\<close>, which is not alphanumeric.
\<close>

theorem series_tag_counterexample:
  "fst (clean_twice (Some ''1.2.3. The Title'')) = Some ''1.2.3''
   \<and> \<not> dotted_alnum_tag ''1.2.3''
   \<and> fst (clean_twice (Some ''#1. The Title'')) = Some ''#1''
   \<and> \<not> dotted_alnum_tag ''#1''"
  by code_simp

section \<open>The ISBN of a record\<close>

lemma after_sep_contains: "after_sep m c \<noteq> None \<longleftrightarrow> contains m c \<and> c \<noteq> []"
  by (induction c) (auto simp: startswith_def)

lemma contains_after_sep: "contains m c \<Longrightarrow> m \<noteq> [] \<Longrightarrow> \<exists>r. after_sep m c = Some r"
  using after_sep_contains contains_nonempty by (metis not_Some_eq)

lemma before_sep_none: "after_sep m s = None \<Longrightarrow> before_sep m s = s"
  by (induction s) (auto split: if_splits)

lemma py_split_head: "m \<noteq> [] \<Longrightarrow> \<exists>rest. py_split m s = before_sep m s # rest"
  by (cases "after_sep m s") (auto simp: before_sep_none py_split.simps [of m s])

lemma item0_split: "m \<noteq> [] \<Longrightarrow> item (py_split m s) 0 = Inr (before_sep m s)"
  using py_split_head [of m s] by (auto simp: item_def)

lemma item1_split:
  "m \<noteq> [] \<Longrightarrow> after_sep m s = Some r \<Longrightarrow> item (py_split m s) (Suc 0) = Inr (before_sep m r)"
  using py_split_head [of m r] by (auto simp: item_def py_split.simps [of m s])

lemma item1_split_none:
  "m \<noteq> [] \<Longrightarrow> after_sep m s = None \<Longrightarrow> item (py_split m s) (Suc 0) = Inl IndexError"
  by (auto simp: item_def py_split.simps [of m s])

lemma before_sep_char: "before_sep [ch] s = takeWhile (\<lambda>c. c \<noteq> ch) s"
  by (induction s) (auto simp: startswith_def)

lemma takeWhile_twice:
  "takeWhile Q (takeWhile P s) = takeWhile (\<lambda>c. P c \<and> Q c) s"
  by (induction s) auto

lemma first_token_eq:
  assumes "m \<noteq> []" "after_sep m c = Some r"
  shows "first_token m c = Inr (takeWhile (\<lambda>ch. \<not> token_end ch) (before_sep m r))"
proof -
  have "first_token m c = Inr (takeWhile (\<lambda>ch. ch \<noteq> CHR 0x0A)
          (takeWhile (\<lambda>ch. ch \<noteq> CHR '' '') (before_sep m r)))"
    using assms by (simp add: first_token_def item1_split item0_split before_sep_char)
  then show ?thesis by (simp add: takeWhile_twice token_end_def)
qed

lemma dropWhile_append_stop:
  "list_all P xs \<Longrightarrow> ys \<noteq> [] \<Longrightarrow> \<not> P (hd ys) \<Longrightarrow> dropWhile P (xs @ ys) = ys"
  by (induction xs) (auto simp: neq_Nil_conv)

lemma dash_not_digit: "\<not> is_digit (CHR ''-'')"
  by (simp add: is_digit_def)

lemma digits_dash_iff:
  "digits_dash lo hi s = Some r \<longleftrightarrow>
     (\<exists>ds. s = ds @ ''-'' @ r \<and> list_all is_digit ds \<and> lo \<le> length ds \<and> length ds \<le> hi)"
proof
  assume a: "digits_dash lo hi s = Some r"
  let ?ds = "takeWhile is_digit s"
  let ?r = "dropWhile is_digit s"
  have c: "lo \<le> length ?ds \<and> length ?ds \<le> hi \<and> ?r \<noteq> [] \<and> hd ?r = CHR ''-''"
  proof (rule ccontr)
    assume "\<not> ?thesis"
    then have "digits_dash lo hi s = None" unfolding digits_dash_def Let_def by simp
    with a show False by simp
  qed
  then have "digits_dash lo hi s = Some (tl ?r)" unfolding digits_dash_def Let_def by simp
  with a have r: "r = tl ?r" by simp
  from c have rr: "?r = CHR ''-'' # r" unfolding r by (cases ?r) simp_all
  have "?ds @ ?r = s" by (rule takeWhile_dropWhile_id)
  then have "?ds @ CHR ''-'' # r = s" unfolding rr .
  then have s: "s = ?ds @ ''-'' @ r" by simp
  have "list_all is_digit ?ds" unfolding list_all_iff using set_takeWhileD by fast
  with s c show "\<exists>ds. s = ds @ ''-'' @ r \<and> list_all is_digit ds \<and> lo \<le> length ds \<and> length ds \<le> hi"
    by blast
next
  assume "\<exists>ds. s = ds @ ''-'' @ r \<and> list_all is_digit ds \<and> lo \<le> length ds \<and> length ds \<le> hi"
  then obtain ds where s: "s = ds @ (CHR ''-'' # r)" and d: "list_all is_digit ds"
    and l: "lo \<le> length ds" "length ds \<le> hi" by auto
  have t: "takeWhile is_digit s = ds" unfolding s
    using d by (intro takeWhile_append_stop) (auto simp: dash_not_digit)
  have dr: "dropWhile is_digit s = CHR ''-'' # r" unfolding s
    using d by (intro dropWhile_append_stop) (auto simp: dash_not_digit)
  show "digits_dash lo hi s = Some r"
    unfolding digits_dash_def Let_def t dr using l by simp
qed

lemma isbn_match_iff:
  "isbn_match s \<longleftrightarrow>
     (\<exists>a b c d rest. s = a @ ''-'' @ b @ ''-'' @ c @ ''-'' @ d # rest
        \<and> list_all is_digit a \<and> length a = 3
        \<and> list_all is_digit b \<and> 1 \<le> length b \<and> length b \<le> 5
        \<and> list_all is_digit c \<and> 1 \<le> length c \<and> length c \<le> 7
        \<and> is_digit d)"
proof
  assume "isbn_match s"
  then obtain r1 r2 r3 where 1: "digits_dash 3 3 s = Some r1" and 2: "digits_dash 1 5 r1 = Some r2"
    and 3: "digits_dash 1 7 r2 = Some r3" and 4: "r3 \<noteq> []" "is_digit (hd r3)"
    unfolding isbn_match_def by (auto split: option.splits)
  from 1 obtain a where a: "s = a @ ''-'' @ r1" "list_all is_digit a" "length a = 3"
    unfolding digits_dash_iff by (elim exE conjE) simp
  from 2 obtain b where b: "r1 = b @ ''-'' @ r2" "list_all is_digit b" "1 \<le> length b" "length b \<le> 5"
    unfolding digits_dash_iff by (elim exE conjE) simp
  from 3 obtain c where c: "r2 = c @ ''-'' @ r3" "list_all is_digit c" "1 \<le> length c" "length c \<le> 7"
    unfolding digits_dash_iff by (elim exE conjE) simp
  from 4 obtain d rest where d: "r3 = d # rest" "is_digit d" by (cases r3) auto
  have "s = a @ ''-'' @ b @ ''-'' @ c @ ''-'' @ d # rest"
    using a(1) b(1) c(1) d(1) by simp
  with a b c d show "\<exists>a b c d rest. s = a @ ''-'' @ b @ ''-'' @ c @ ''-'' @ d # rest
        \<and> list_all is_digit a \<and> length a = 3
        \<and> list_all is_digit b \<and> 1 \<le> length b \<and> length b \<le> 5
        \<and> list_all is_digit c \<and> 1 \<le> length c \<and> length c \<le> 7
        \<and> is_digit d" by blast
next
  assume "\<exists>a b c d rest. s = a @ ''-'' @ b @ ''-'' @ c @ ''-'' @ d # rest
        \<and> list_all is_digit a \<and> length a = 3
        \<and> list_all is_digit b \<and> 1 \<le> length b \<and> length b \<le> 5
        \<and> list_all is_digit c \<and> 1 \<le> length c \<and> length c \<le> 7
        \<and> is_digit d"
  then obtain a b c d rest where s: "s = a @ ''-'' @ b @ ''-'' @ c @ ''-'' @ d # rest"
    and a: "list_all is_digit a" "length a = 3"
    and b: "list_all is_digit b" "1 \<le> length b" "length b \<le> 5"
    and c: "list_all is_digit c" "1 \<le> length c" "length c \<le> 7"
    and d: "is_digit d" by blast
  have 1: "digits_dash 3 3 s = Some (b @ ''-'' @ c @ ''-'' @ d # rest)"
    by (rule digits_dash_iff [THEN iffD2], rule exI [of _ a]) (use s a in simp)
  have 2: "digits_dash 1 5 (b @ ''-'' @ c @ ''-'' @ d # rest) = Some (c @ ''-'' @ d # rest)"
    by (rule digits_dash_iff [THEN iffD2], rule exI [of _ b]) (use b in simp)
  have 3: "digits_dash 1 7 (c @ ''-'' @ d # rest) = Some (d # rest)"
    by (rule digits_dash_iff [THEN iffD2], rule exI [of _ c]) (use c in simp)
  show "isbn_match s" using 1 2 3 d by (simp add: isbn_match_def)
qed

lemma checked_isbn_eq:
  assumes "m \<noteq> []" "after_sep m c = Some r"
  shows "checked_isbn m c =
           Inr (if isbn_match (takeWhile (\<lambda>ch. \<not> token_end ch) (before_sep m r))
                then Some (takeWhile (\<lambda>ch. \<not> token_end ch) (before_sep m r)) else None)"
  by (simp add: checked_isbn_def first_token_eq [OF assms])

lemma extract_isbn_ok:
  assumes "isbn_ok (isbn d)"
  shows "\<exists>d'. extract_isbn c d = Inr d' \<and> isbn_ok (isbn d')"
proof (cases "contains ''Digital Retail ISBN: '' c")
  case True
  then obtain r where "after_sep ''Digital Retail ISBN: '' c = Some r"
    using contains_after_sep by blast
  from checked_isbn_eq [OF _ this] True show ?thesis
    by (simp add: extract_isbn_def isbn_ok_def)
next
  case False
  show ?thesis
  proof (cases "contains ''Physical Retail ISBN: '' c")
    case True
    then obtain r where "after_sep ''Physical Retail ISBN: '' c = Some r"
      using contains_after_sep by blast
    from checked_isbn_eq [OF _ this] True False show ?thesis
      by (simp add: extract_isbn_def isbn_ok_def)
  next
    case no: False
    with False assms show ?thesis by (simp add: extract_isbn_def)
  qed
qed

lemma extract_isbn_eq:
  "extract_isbn c d =
     Inr (if contains ''Digital Retail ISBN: '' c \<or> contains ''Physical Retail ISBN: '' c
          then d\<lparr>isbn := isbn_by_spec c\<rparr> else d)"
proof (cases "contains ''Digital Retail ISBN: '' c")
  case True
  then obtain r where r: "after_sep ''Digital Retail ISBN: '' c = Some r"
    using contains_after_sep by blast
  from checked_isbn_eq [OF _ r] True r show ?thesis
    by (simp add: extract_isbn_def isbn_by_spec_def Let_def)
next
  case False
  show ?thesis
  proof (cases "contains ''Physical Retail ISBN: '' c")
    case True
    then obtain r where r: "after_sep ''Physical Retail ISBN: '' c = Some r"
      using contains_after_sep by blast
    from checked_isbn_eq [OF _ r] True False r show ?thesis
      by (simp add: extract_isbn_def isbn_by_spec_def Let_def)
  next
    case no: False
    with False show ?thesis by (simp add: extract_isbn_def)
  qed
qed

lemma isbn_by_spec_ok: "isbn_ok (isbn_by_spec c)"
  by (auto simp: isbn_by_spec_def isbn_ok_def Let_def split: option.splits)

lemma isbn_by_spec_none:
  "\<not> contains ''Digital Retail ISBN: '' c \<Longrightarrow> \<not> contains ''Physical Retail ISBN: '' c
     \<Longrightarrow> isbn_by_spec c = None"
  by (simp add: isbn_by_spec_def)

lemma isbn_duration: "extract_duration c d = Inr d' \<Longrightarrow> isbn d' = isbn d"
  by (auto simp: extract_duration_def split: if_splits sum.splits)

lemma isbn_title_series: "title_series E pd d = Inr d' \<Longrightarrow> isbn d' = isbn d"
  by (auto simp: title_series_def Let_def split: sum.splits option.splits)

lemma isbn_title_step: "title_step E sp u = Inr d \<Longrightarrow> isbn d = None"
  by (auto simp: title_step_def empty_data_def split: option.splits dest!: isbn_title_series)

lemma isbn_cover_step: "isbn (cover_step base sp d) = isbn d"
  by (simp add: cover_step_def cover_image_def Let_def split: option.splits)

lemma isbn_date_step: "isbn (date_step E sp d) = isbn d"
  by (simp add: date_step_def split: option.splits)

lemma isbn_credits_step: "isbn (credits_step sp d) = isbn d"
  by (simp add: credits_step_def Let_def)

lemma isbn_tab_other:
  "tab_id \<noteq> ''tab6'' \<Longrightarrow> tab_step sp tab_id d = Inr d' \<Longrightarrow> isbn d' = isbn d"
  by (auto simp: tab_step_def Let_def split: option.splits if_splits)

lemma isbn_tab6:
  assumes "tab_step sp ''tab6'' d = Inr d'" and "isbn d = None"
  shows "isbn d' = (case tabs sp ''tab6'' of
                      None \<Rightarrow> None
                    | Some tab \<Rightarrow> isbn_by_spec (py_strip (tab_content tab)))"
proof (cases "tabs sp ''tab6''")
  case None
  with assms show ?thesis by (simp add: tab_step_def)
next
  case (Some tab)
  let ?c = "py_strip (tab_content tab)"
  from assms(1) Some obtain d1 where
    1: "extract_duration ?c (d\<lparr>production := Some ?c\<rparr>) = Inr d1"
    and 2: "extract_isbn ?c d1 = Inr d'"
    by (auto simp: tab_step_def Let_def split: sum.splits)
  from isbn_duration [OF 1] assms(2) have "isbn d1 = None" by simp
  with 2 Some show ?thesis
    by (auto simp: extract_isbn_eq isbn_by_spec_none split: if_splits)
qed

lemma isbn_extract_fields:
  assumes "extract_fields E base u sp = Inr data"
  shows "isbn data = (case tabs sp ''tab6'' of
                        None \<Rightarrow> None
                      | Some tab \<Rightarrow> isbn_by_spec (py_strip (tab_content tab)))"
proof -
  from assms obtain d0 where t: "title_step E sp u = Inr d0"
    and l: "tabs_loop sp [''tab1'', ''tab2'', ''tab5'', ''tab6'']
              (credits_step sp (date_step E sp (cover_step base sp d0))) = Inr data"
    unfolding extract_fields_def by (cases "title_step E sp u") auto
  let ?d = "credits_step sp (date_step E sp (cover_step base sp d0))"
  have z: "isbn ?d = None"
    using isbn_title_step [OF t] by (simp add: isbn_credits_step isbn_date_step isbn_cover_step)
  from l obtain d1 d2 d3 where s1: "tab_step sp ''tab1'' ?d = Inr d1"
    and s2: "tab_step sp ''tab2'' d1 = Inr d2" and s3: "tab_step sp ''tab5'' d2 = Inr d3"
    and s4: "tab_step sp ''tab6'' d3 = Inr data"
    by (auto split: sum.splits)
  have "isbn d3 = None"
    using isbn_tab_other [OF _ s1] isbn_tab_other [OF _ s2] isbn_tab_other [OF _ s3] z by simp
  from isbn_tab6 [OF s4 this] show ?thesis .
qed

lemma parse_data_saves:
  assumes "html_parser E html = Some sp" and "extract_fields E (base_url s) u sp = Inr data"
  shows "\<exists>s'. parse_data E s u html = Inr (s', Some data)
              \<and> map_option columns (content (db s') (url data)) = Some data"
  using assms by (simp add: parse_data_def save_content_def)

text \<open>
  C4. The ISBN of every extracted record is absent or a string that \<open>re.match\<close> accepts
  for the pattern: three digits, a dash, one to five digits, a dash, one to seven
  digits, a dash and a digit, at the start of the string (the string may go on, as
  \<open>978-1-4028-9462-6\<close> does). It is what the specification describes, read off the
  text of the tab \<open>tab6\<close>: the token after \<open>Digital Retail ISBN: \<close> when the text holds
  that marker, else the token after \<open>Physical Retail ISBN: \<close>, cut at the first space or
  newline, and absent when the pattern refuses it; the extraction of the ISBN never
  raises. The record that \<open>parse_data\<close> returns is the record it saves. An ISBN of
  the shape \<open>978-1-4028-9462-6\<close> is kept and \<open>N/A\<close> is dropped.
\<close>

theorem isbn_invariant:
  "(extract_fields E base u sp = Inr data \<longrightarrow>
      (isbn data = None \<or> (\<exists>i. isbn data = Some i \<and> isbn_match i))
      \<and> isbn data = (case tabs sp ''tab6'' of
                        None \<Rightarrow> None
                      | Some tab \<Rightarrow> isbn_by_spec (py_strip (tab_content tab))))
   \<and> (html_parser E html = Some sp \<and> extract_fields E (base_url s) u sp = Inr data \<longrightarrow>
      (\<exists>s'. parse_data E s u html = Inr (s', Some data)
            \<and> map_option columns (content (db s') (url data)) = Some data))
   \<and> extract_isbn c d0 =
       Inr (if contains ''Digital Retail ISBN: '' c \<or> contains ''Physical Retail ISBN: '' c
            then d0\<lparr>isbn := isbn_by_spec c\<rparr> else d0)
   \<and> (isbn_match t \<longleftrightarrow>
        (\<exists>g1 g2 g3 g4 rest. t = g1 @ ''-'' @ g2 @ ''-'' @ g3 @ ''-'' @ g4 # rest
           \<and> list_all is_digit g1 \<and> length g1 = 3
           \<and> list_all is_digit g2 \<and> 1 \<le> length g2 \<and> length g2 \<le> 5
           \<and> list_all is_digit g3 \<and> 1 \<le> length g3 \<and> length g3 \<le> 7
           \<and> is_digit g4))
   \<and> isbn_by_spec ''Digital Retail ISBN: 978-1-4028-9462-6'' = Some ''978-1-4028-9462-6''
   \<and> isbn_by_spec ''Physical Retail ISBN: 978-1-4028-9462-6 '' = Some ''978-1-4028-9462-6''
   \<and> isbn_by_spec ''Digital Retail ISBN: N/A'' = None"
proof (intro conjI impI)
  assume a: "extract_fields E base u sp = Inr data"
  show m: "isbn data = (case tabs sp ''tab6'' of
                        None \<Rightarrow> None
                      | Some tab \<Rightarrow> isbn_by_spec (py_strip (tab_content tab)))"
    by (rule isbn_extract_fields [OF a])
  have "isbn_ok (isbn data)" unfolding m
    by (cases "tabs sp ''tab6''") (simp_all add: isbn_by_spec_ok, simp add: isbn_ok_def)
  then show "isbn data = None \<or> (\<exists>i. isbn data = Some i \<and> isbn_match i)"
    by (cases "isbn data") (simp_all add: isbn_ok_def)
next
  assume "html_parser E html = Some sp \<and> extract_fields E (base_url s) u sp = Inr data"
  then show "\<exists>s'. parse_data E s u html = Inr (s', Some data)
            \<and> map_option columns (content (db s') (url data)) = Some data"
    using parse_data_saves by blast
next
  show "extract_isbn c d0 =
       Inr (if contains ''Digital Retail ISBN: '' c \<or> contains ''Physical Retail ISBN: '' c
            then d0\<lparr>isbn := isbn_by_spec c\<rparr> else d0)"
    by (rule extract_isbn_eq)
next
  show "isbn_match t \<longleftrightarrow>
        (\<exists>g1 g2 g3 g4 rest. t = g1 @ ''-'' @ g2 @ ''-'' @ g3 @ ''-'' @ g4 # rest
           \<and> list_all is_digit g1 \<and> length g1 = 3
           \<and> list_all is_digit g2 \<and> 1 \<le> length g2 \<and> length g2 \<le> 5
           \<and> list_all is_digit g3 \<and> 1 \<le> length g3 \<and> length g3 \<le> 7
           \<and> is_digit g4)"
    by (rule isbn_match_iff)
next
  show "isbn_by_spec ''Digital Retail ISBN: 978-1-4028-9462-6'' = Some ''978-1-4028-9462-6''"
    by code_simp
next
  show "isbn_by_spec ''Physical Retail ISBN: 978-1-4028-9462-6 '' = Some ''978-1-4028-9462-6''"
    by code_simp
next
  show "isbn_by_spec ''Digital Retail ISBN: N/A'' = None"
    by code_simp
qed

lemma production_example:
  "extract_fields example_env ''https://www.bigfinish.com'' ''u'' production_soup =
     Inr ((empty_data ''u'')
            \<lparr>production := Some (''Duration: 60 minutes'' @ [CHR 0x0A]
                 @ ''Digital Retail ISBN: 978-1-4028-9462-6 Physical Retail ISBN: N/A''),
             duration := Some ''60'', isbn := Some ''978-1-4028-9462-6''\<rparr>)"
  by code_simp

theorem isbn_invariant_witness:
  "extract_fields example_env ''https://www.bigfinish.com'' ''u'' production_soup =
     Inr ((empty_data ''u'')
            \<lparr>production := Some (''Duration: 60 minutes'' @ [CHR 0x0A]
                 @ ''Digital Retail ISBN: 978-1-4028-9462-6 Physical Retail ISBN: N/A''),
             duration := Some ''60'', isbn := Some ''978-1-4028-9462-6''\<rparr>)
   \<and> isbn_match ''978-1-4028-9462-6''
   \<and> \<not> isbn_match ''N/A''"
proof -
  note T = isbn_invariant [of example_env "''https://www.bigfinish.com''" "''u''" production_soup
     "(empty_data ''u'')
            \<lparr>production := Some (''Duration: 60 minutes'' @ [CHR 0x0A]
                 @ ''Digital Retail ISBN: 978-1-4028-9462-6 Physical Retail ISBN: N/A''),
             duration := Some ''60'', isbn := Some ''978-1-4028-9462-6''\<rparr>"]
  from T production_example
  have "isbn ((empty_data ''u'')
            \<lparr>production := Some (''Duration: 60 minutes'' @ [CHR 0x0A]
                 @ ''Digital Retail ISBN: 978-1-4028-9462-6 Physical Retail ISBN: N/A''),
             duration := Some ''60'', isbn := Some ''978-1-4028-9462-6''\<rparr>) = None
        \<or> (\<exists>i. isbn ((empty_data ''u'')
            \<lparr>production := Some (''Duration: 60 minutes'' @ [CHR 0x0A]
                 @ ''Digital Retail ISBN: 978-1-4028-9462-6 Physical Retail ISBN: N/A''),
             duration := Some ''60'', isbn := Some ''978-1-4028-9462-6''\<rparr>) = Some i \<and> isbn_match i)"
    by blast
  then have a: "isbn_match ''978-1-4028-9462-6''" by simp
  have b: "\<not> isbn_match ''N/A''" by code_simp
  show ?thesis using production_example a b by blast
qed

section \<open>Pages that make the extractor raise\<close>

lemma search_sub_None: "\<exists>e. search_sub E pat None = Inl e"
  by (simp add: search_sub_def)

lemma title_series_no_h6: "h6 pd = None \<Longrightarrow> \<exists>e. title_series E pd d = Inl e"
  by (auto simp: title_series_def Let_def split: sum.splits)

lemma title_series_no_h3: "h3 pd = None \<Longrightarrow> \<exists>e. title_series E pd d = Inl e"
proof -
  assume a: "h3 pd = None"
  have c: "clean_twice None = (None, None)" by (simp add: clean_twice_def clean_title_def)
  obtain e where "search_sub E (fstr (map_option py_strip (h6 pd)) @ colon_space) None = Inl e"
    using search_sub_None by blast
  with a c show ?thesis by (simp add: title_series_def Let_def)
qed

lemma parse_data_raises:
  "html_parser E html = Some sp \<Longrightarrow> extract_fields E (base_url s) u sp = Inl e
     \<Longrightarrow> parse_data E s u html = Inl e"
  by (simp add: parse_data_def)

lemma tab_step_total_other:
  "tab_id \<noteq> ''tab6'' \<Longrightarrow> \<exists>d'. tab_step sp tab_id d = Inr d'"
  by (auto simp: tab_step_def Let_def split: option.splits)

lemma duration_index_error:
  assumes "contains ''Duration:'' c" "\<not> contains ''Duration: '' c"
  shows "extract_duration c d = Inl IndexError"
proof -
  from assms(2) have "after_sep ''Duration: '' c = None"
    using after_sep_contains by blast
  then have "first_token ''Duration: '' c = Inl IndexError"
    by (simp add: first_token_def item1_split_none)
  with assms(1) show ?thesis by (simp add: extract_duration_def)
qed

lemma extract_fields_duration_raises:
  assumes "tabs sp ''tab6'' = Some tab"
    and "contains ''Duration:'' (py_strip (tab_content tab))"
    and "\<not> contains ''Duration: '' (py_strip (tab_content tab))"
  shows "\<exists>e. extract_fields E base u sp = Inl e"
proof (cases "title_step E sp u")
  case (Inl e)
  then show ?thesis by (simp add: extract_fields_def)
next
  case (Inr d0)
  let ?d = "credits_step sp (date_step E sp (cover_step base sp d0))"
  obtain d1 where 1: "tab_step sp ''tab1'' ?d = Inr d1" using tab_step_total_other [of "''tab1''"] by auto
  obtain d2 where 2: "tab_step sp ''tab2'' d1 = Inr d2" using tab_step_total_other [of "''tab2''"] by auto
  obtain d3 where 3: "tab_step sp ''tab5'' d2 = Inr d3" using tab_step_total_other [of "''tab5''"] by auto
  have 4: "tab_step sp ''tab6'' d3 = Inl IndexError"
    using assms by (simp add: tab_step_def Let_def duration_index_error)
  show ?thesis using Inr 1 2 3 4 by (simp add: extract_fields_def)
qed

text \<open>
  C3. On a page that the parser reads, \<open>parse_data\<close> raises, and saves nothing, when
  the description block is there and its \<open>h3\<close> or its \<open>h6\<close> is missing: with no \<open>h6\<close>
  the series is \<open>None\<close> and \<open>data['series'].replace\<close> fails, with no \<open>h3\<close> the title is
  \<open>None\<close> and \<open>re.search\<close> refuses it. It also raises when the text of \<open>tab6\<close> holds
  \<open>Duration:\<close> and not \<open>Duration: \<close>, where \<open>split(...)[1]\<close> is out of range.
\<close>

theorem missing_heading_raises:
  assumes "html_parser E html = Some sp"
  shows "(product_desc sp = Some pd \<and> (h3 pd = None \<or> h6 pd = None)
            \<longrightarrow> (\<exists>e. parse_data E s u html = Inl e))
       \<and> (tabs sp ''tab6'' = Some tab \<and> contains ''Duration:'' (py_strip (tab_content tab))
            \<and> \<not> contains ''Duration: '' (py_strip (tab_content tab))
            \<longrightarrow> (\<exists>e. parse_data E s u html = Inl e))"
proof (intro conjI impI)
  assume a: "product_desc sp = Some pd \<and> (h3 pd = None \<or> h6 pd = None)"
  then obtain e where "title_series E pd (empty_data u) = Inl e"
    using title_series_no_h3 title_series_no_h6 by blast
  with a have "extract_fields E (base_url s) u sp = Inl e"
    by (simp add: extract_fields_def title_step_def)
  from parse_data_raises [OF assms this] show "\<exists>e. parse_data E s u html = Inl e" by blast
next
  assume "tabs sp ''tab6'' = Some tab \<and> contains ''Duration:'' (py_strip (tab_content tab))
            \<and> \<not> contains ''Duration: '' (py_strip (tab_content tab))"
  then obtain e where "extract_fields E (base_url s) u sp = Inl e"
    using extract_fields_duration_raises by blast
  from parse_data_raises [OF assms this] show "\<exists>e. parse_data E s u html = Inl e" by blast
qed

lemma no_series_parses: "html_parser (env_for no_series_soup) ''<html>'' = Some no_series_soup"
  by (simp add: env_for_def)

lemma no_series_fields:
  "extract_fields (env_for no_series_soup) ''https://www.bigfinish.com''
     ''https://www.bigfinish.com/releases/v/1'' no_series_soup = Inl AttributeError"
  by code_simp

theorem missing_heading_raises_witness:
  "html_parser (env_for no_series_soup) ''<html>'' = Some no_series_soup
   \<and> product_desc no_series_soup
       = Some \<lparr>h3 = Some ''The Actual Title'', h6 = None, paragraphs = []\<rparr>
   \<and> h6 \<lparr>h3 = Some ''The Actual Title'', h6 = None, paragraphs = []\<rparr> = None
   \<and> (\<exists>e. parse_data (env_for no_series_soup) fresh_scraper
              ''https://www.bigfinish.com/releases/v/1'' ''<html>'' = Inl e)
   \<and> extract_fields (env_for no_series_soup) ''https://www.bigfinish.com''
        ''https://www.bigfinish.com/releases/v/1'' no_series_soup = Inl AttributeError"
proof -
  have p: "product_desc no_series_soup
       = Some \<lparr>h3 = Some ''The Actual Title'', h6 = None, paragraphs = []\<rparr>"
    by (simp add: no_series_soup_def)
  have h: "h6 \<lparr>h3 = Some ''The Actual Title'', h6 = None, paragraphs = []\<rparr> = None" by simp
  from missing_heading_raises [OF no_series_parses, THEN conjunct1, rule_format] p h
  have "\<exists>e. parse_data (env_for no_series_soup) fresh_scraper
              ''https://www.bigfinish.com/releases/v/1'' ''<html>'' = Inl e"
    by blast
  with no_series_parses p h no_series_fields show ?thesis by blast
qed

section \<open>The crawl loop when a fetch fails\<close>

lemma visit_failed:
  "http_get E link = None \<or> http_get E link = Some [] \<Longrightarrow>
     visit E s link = Inr (s\<lparr>visiting := visiting s @ [link]\<rparr>)"
  by (auto simp: visit_def get_html_def Let_def)

lemma map_of_dict_set: "map_of (dict_set al k v) k = Some v"
  by (induction al k v rule: dict_set.induct) auto

lemma visit_marks:
  assumes "visit E s link = Inr s'" and "http_get E link = Some html" and "html \<noteq> []"
  shows "map_of (all_links s') link = Some True"
  using assms
  by (auto simp: visit_def get_html_def Let_def map_of_dict_set split: sum.splits if_splits)

text \<open>
  C1. \<open>run\<close> marks a link visited inside \<open>if content:\<close> only. When the fetch of a link
  fails (\<open>get_html\<close> returns \<open>None\<close>) or the body is empty, the link is printed as
  visited and nothing else happens: the frontier and the tables are as before, and the
  link is still not visited.
\<close>

theorem failed_fetch_not_marked:
  assumes "http_get E link = None \<or> http_get E link = Some []"
  shows "visit E s link = Inr (s\<lparr>visiting := visiting s @ [link]\<rparr>)
       \<and> (\<exists>s'. visit E s link = Inr s' \<and> all_links s' = all_links s \<and> db s' = db s)"
  using visit_failed [OF assms] by simp

lemma example_fetch_fails:
  "http_get example_env ''https://www.bigfinish.com/releases/v/1'' = None
   \<or> http_get example_env ''https://www.bigfinish.com/releases/v/1'' = Some []"
  by (simp add: example_env_def)

theorem failed_fetch_not_marked_witness:
  "(http_get example_env ''https://www.bigfinish.com/releases/v/1'' = None
    \<or> http_get example_env ''https://www.bigfinish.com/releases/v/1'' = Some [])
   \<and> (\<exists>s'. visit example_env one_link_scraper ''https://www.bigfinish.com/releases/v/1'' = Inr s'
          \<and> all_links s' = [(''https://www.bigfinish.com/releases/v/1'', False)])"
proof -
  from failed_fetch_not_marked [OF example_fetch_fails, of one_link_scraper]
  have "\<exists>s'. visit example_env one_link_scraper ''https://www.bigfinish.com/releases/v/1'' = Inr s'
          \<and> all_links s' = all_links one_link_scraper" by blast
  then have "\<exists>s'. visit example_env one_link_scraper ''https://www.bigfinish.com/releases/v/1'' = Inr s'
          \<and> all_links s' = [(''https://www.bigfinish.com/releases/v/1'', False)]"
    by (simp add: one_link_scraper_def)
  with example_fetch_fails show ?thesis by blast
qed

lemma remember_links: "\<exists>ext. all_links (remember E s u) = all_links s @ ext"
  by (simp add: remember_def)

lemma links_loop_extends:
  "links_loop E b hs (s, acc) = (s', out) \<Longrightarrow> \<exists>ext. all_links s' = all_links s @ ext"
proof (induction hs arbitrary: s acc)
  case Nil
  then show ?case by simp
next
  case (Cons href rest)
  show ?case
  proof (cases href)
    case None
    with Cons show ?thesis by simp
  next
    case (Some h)
    show ?thesis
    proof (cases "kept b (base_url s) h")
      case False
      with Cons.prems Some have "links_loop E b rest (s, acc) = (s', out)"
        by (simp only: links_loop_Some if_False)
      from Cons.IH [OF this] show ?thesis .
    next
      case True
      let ?u = "full_url_of (base_url s) h"
      from Cons.prems Some True
      have "links_loop E b rest (remember E s ?u, acc @ [?u]) = (s', out)"
        by (simp only: links_loop_Some if_True)
      from Cons.IH [OF this] obtain ext where "all_links s' = all_links (remember E s ?u) @ ext" ..
      moreover obtain ext0 where "all_links (remember E s ?u) = all_links s @ ext0"
        using remember_links by blast
      ultimately show ?thesis by simp
    qed
  qed
qed

lemma get_all_links_extends:
  "\<exists>ext. all_links (fst (get_all_links E s html b)) = all_links s @ ext"
proof (cases "html_parser E html")
  case None
  then show ?thesis by (simp add: get_all_links_def)
next
  case (Some sp)
  obtain s' out where r: "links_loop E b (hrefs sp) (s, []) = (s', out)"
    by (cases "links_loop E b (hrefs sp) (s, [])") auto
  from links_loop_extends [OF r] Some r show ?thesis by (simp add: get_all_links_def)
qed

lemma dict_set_keeps:
  "(x, v) \<in> set al \<Longrightarrow> k \<noteq> x \<Longrightarrow> (x, v) \<in> set (dict_set al k w)"
  by (induction al k w rule: dict_set.induct) auto

lemma parse_data_links:
  "parse_data E s u html = Inr (s', data) \<Longrightarrow> all_links s' = all_links s"
  by (auto simp: parse_data_def split: option.splits sum.splits)

lemma visit_links:
  assumes "visit E s link = Inr s'" and "http_get E link = Some html" and "html \<noteq> []"
  shows "all_links s' =
           dict_set (all_links (fst (get_all_links E (s\<lparr>visiting := visiting s @ [link]\<rparr>)
                                      html True))) link True"
proof (cases "is_detail link")
  case False
  with assms show ?thesis by (auto simp: visit_def get_html_def Let_def)
next
  case True
  let ?s1 = "fst (get_all_links E (s\<lparr>visiting := visiting s @ [link]\<rparr>) html True)"
  from assms True obtain s2 data where p: "parse_data E ?s1 link html = Inr (s2, data)"
    and s': "s' = s2\<lparr>db := mark_url_visited (now E) (db s2) link,
                       all_links := dict_set (all_links s2) link True\<rparr>"
    by (auto simp: visit_def get_html_def Let_def split: sum.splits)
  from parse_data_links [OF p] s' show ?thesis by simp
qed

lemma visit_keeps_unvisited:
  assumes x: "(x, False) \<in> set (all_links s)"
    and f: "http_get E x = None \<or> http_get E x = Some []"
    and v: "visit E s link = Inr s'"
  shows "(x, False) \<in> set (all_links s')"
proof (cases "http_get E link = None \<or> http_get E link = Some []")
  case True
  from visit_failed [OF this] v x show ?thesis by auto
next
  case False
  with f have ne: "link \<noteq> x" by auto
  from False obtain html where h: "http_get E link = Some html" "html \<noteq> []" by auto
  let ?s0 = "s\<lparr>visiting := visiting s @ [link]\<rparr>"
  let ?s1 = "fst (get_all_links E ?s0 html True)"
  obtain ext where "all_links ?s1 = all_links ?s0 @ ext"
    using get_all_links_extends by blast
  with x have x1: "(x, False) \<in> set (all_links ?s1)" by simp
  from dict_set_keeps [OF x1 ne] visit_links [OF v h] show ?thesis by simp
qed

lemma visit_all_keeps_unvisited:
  "(x, False) \<in> set (all_links s) \<Longrightarrow> http_get E x = None \<or> http_get E x = Some []
     \<Longrightarrow> visit_all E links s = Inr s' \<Longrightarrow> (x, False) \<in> set (all_links s')"
proof (induction links arbitrary: s)
  case Nil
  then show ?case by simp
next
  case (Cons link rest)
  from Cons.prems(3) obtain s1 where 1: "visit E s link = Inr s1"
    and 2: "visit_all E rest s1 = Inr s'" by (auto split: sum.splits)
  from visit_keeps_unvisited [OF Cons.prems(1,2) 1] have "(x, False) \<in> set (all_links s1)" .
  from Cons.IH [OF this Cons.prems(2) 2] show ?case .
qed

lemma unvisited_member:
  "(x, False) \<in> set (all_links s) \<Longrightarrow> is_detail x \<Longrightarrow> x \<in> set (unvisited_links s)"
  by (force simp: unvisited_links_def)

lemma crawl_stuck:
  "(x, False) \<in> set (all_links s) \<Longrightarrow> is_detail x
     \<Longrightarrow> http_get E x = None \<or> http_get E x = Some []
     \<Longrightarrow> crawl n E s \<noteq> Some (Inr s')"
proof (induction n arbitrary: s)
  case 0
  then show ?case by simp
next
  case (Suc n)
  from unvisited_member [OF Suc.prems(1,2)] have ne: "unvisited_links s \<noteq> []" by auto
  show ?case
  proof (cases "visit_all E (unvisited_links s) s")
    case (Inl e)
    with ne show ?thesis by simp
  next
    case (Inr s1)
    from visit_all_keeps_unvisited [OF Suc.prems(1,3) Inr]
    have "(x, False) \<in> set (all_links s1)" .
    from Suc.IH [OF this Suc.prems(2,3)] ne Inr show ?thesis by simp
  qed
qed

lemma visit_all_failed:
  "(\<And>u. http_get E u = None) \<Longrightarrow>
     visit_all E links s = Inr (s\<lparr>visiting := visiting s @ links\<rparr>)"
  by (induction links arbitrary: s) (simp_all add: visit_failed)

lemma crawl_all_failed:
  "(\<And>u. http_get E u = None) \<Longrightarrow> unvisited_links s \<noteq> [] \<Longrightarrow> crawl n E s = None"
proof (induction n arbitrary: s)
  case 0
  then show ?case by simp
next
  case (Suc n)
  let ?s1 = "s\<lparr>visiting := visiting s @ unvisited_links s\<rparr>"
  have u: "unvisited_links ?s1 = unvisited_links s" by (simp add: unvisited_links_def)
  from Suc.prems have "crawl (Suc n) E s = crawl n E ?s1"
    by (simp add: visit_all_failed)
  also have "\<dots> = None" using Suc.IH [of ?s1] Suc.prems u by simp
  finally show ?case .
qed

lemma one_link_detail: "is_detail ''https://www.bigfinish.com/releases/v/1''"
  by code_simp

text \<open>
  C2. With one detail page in the frontier whose fetch fails, \<open>while True\<close> never comes to
  \<open>break\<close>: for every number of rounds the loop is still running. (\<open>crawl_stuck\<close>: in any
  frontier, a detail page whose fetch fails keeps the loop from ever ending with
  nothing left to visit.)
\<close>

theorem failed_fetch_never_terminates:
  "(\<forall>n. run n example_env one_link_scraper = None)
   \<and> http_get example_env ''https://www.bigfinish.com/releases/v/1'' = None
   \<and> unvisited_links one_link_scraper = [''https://www.bigfinish.com/releases/v/1'']"
proof (intro conjI allI)
  have u: "unvisited_links one_link_scraper = [''https://www.bigfinish.com/releases/v/1'']"
    using one_link_detail by (simp add: unvisited_links_def one_link_scraper_def)
  then show "unvisited_links one_link_scraper = [''https://www.bigfinish.com/releases/v/1'']" .
  show "http_get example_env ''https://www.bigfinish.com/releases/v/1'' = None"
    by (simp add: example_env_def)
  fix n
  have s: "seed example_env one_link_scraper = one_link_scraper"
    by (simp add: seed_def one_link_scraper_def)
  have "crawl n example_env one_link_scraper = None"
    using u by (intro crawl_all_failed) (simp_all add: example_env_def)
  then show "run n example_env one_link_scraper = None" by (simp add: run_def s)
qed

end
